theory Spec2Isabelle
  imports Complex_Main "HOL-Library.Word" "HOL-Library.Char_ord" "HOL-Library.List_Lexorder"
    "HOL-Library.Log_Nat"
begin

unbundle bit_operations_syntax

section \<open>JavaScript strings and numbers\<close>

text \<open>
  Strings are lists of characters. Numbers that the code only ever uses as integers are
  \<open>int\<close> or \<open>nat\<close>; where the code halves a string length (\<open>s.length / 2\<close>) the value
  is a \<open>rat\<close>, which is exact for every value that occurs. \<open>undefined\<close> and \<open>null\<close>
  are \<open>None\<close>; \<open>NaN\<close> as the result of \<open>parseInt\<close> is \<open>None\<close> as well.
\<close>

definition startsWith :: "string \<Rightarrow> string \<Rightarrow> bool" where
  "startsWith s p = (take (length p) s = p)"

definition endsWith :: "string \<Rightarrow> string \<Rightarrow> bool" where
  "endsWith s p = (length p \<le> length s \<and> drop (length s - length p) s = p)"

text \<open>\<open>s.slice(a, b)\<close> for \<open>0 \<le> a\<close> and \<open>0 \<le> b\<close>, and \<open>s.slice(-k)\<close>.\<close>

definition slice :: "string \<Rightarrow> nat \<Rightarrow> nat \<Rightarrow> string" where
  "slice s a b = take (b - a) (drop a s)"

definition slice_last :: "string \<Rightarrow> nat \<Rightarrow> string" where
  "slice_last s k = drop (length s - k) s"

text \<open>\<open>s.split(' ')\<close>: the empty string splits into one empty piece.\<close>

fun split_space :: "string \<Rightarrow> string list" where
  "split_space [] = [[]]"
| "split_space (c # cs) =
     (if c = CHR '' '' then [] # split_space cs
      else (case split_space cs of w # ws \<Rightarrow> (c # w) # ws | [] \<Rightarrow> [[c]]))"

text \<open>The number of non-overlapping matches of a literal pattern, scanning from the left
  (\<open>s.match(/pat/g)?.length || 0\<close>). \<open>k\<close> counts the characters of the last match that
  are still to be skipped.\<close>

fun count_matches :: "string \<Rightarrow> nat \<Rightarrow> string \<Rightarrow> nat" where
  "count_matches pat k [] = 0"
| "count_matches pat k (c # cs) =
     (if 0 < k then count_matches pat (k - 1) cs
      else if startsWith (c # cs) pat then Suc (count_matches pat (length pat - 1) cs)
      else count_matches pat 0 cs)"

definition is_digit :: "char \<Rightarrow> bool" where
  "is_digit c = (48 \<le> (of_char c :: nat) \<and> (of_char c :: nat) \<le> 57)"

definition hex_digit :: "char \<Rightarrow> nat option" where
  "hex_digit c =
     (let n = (of_char c :: nat) in
      if 48 \<le> n \<and> n \<le> 57 then Some (n - 48)
      else if 97 \<le> n \<and> n \<le> 102 then Some (n - 87)
      else if 65 \<le> n \<and> n \<le> 70 then Some (n - 55)
      else None)"

definition is_hex :: "char \<Rightarrow> bool" where
  "is_hex c = (hex_digit c \<noteq> None)"

definition is_space :: "char \<Rightarrow> bool" where
  "is_space c = ((of_char c :: nat) \<in> {9, 10, 11, 12, 13, 32})"

fun digits_val :: "nat \<Rightarrow> nat \<Rightarrow> string \<Rightarrow> nat" where
  "digits_val radix acc [] = acc"
| "digits_val radix acc (c # cs) =
     (case hex_digit c of
        None \<Rightarrow> acc
      | Some d \<Rightarrow> if d < radix then digits_val radix (radix * acc + d) cs else acc)"

text \<open>\<open>parseInt(s, 16)\<close>: white space, then a sign, then an optional \<open>0x\<close>, then the
  longest run of hexadecimal digits; \<open>NaN\<close> (here \<open>None\<close>) when there is no digit. Every
  call site passes at most four characters, so the result is exact.\<close>

definition parseInt16 :: "string \<Rightarrow> int option" where
  "parseInt16 s =
     (let t = dropWhile is_space s;
          neg = (take 1 t = ''-'');
          u = (if take 1 t = ''-'' \<or> take 1 t = ''+'' then drop 1 t else t);
          v = (if take 2 u = ''0x'' \<or> take 2 u = ''0X'' then drop 2 u else u)
      in case v of
           [] \<Rightarrow> None
         | c # _ \<Rightarrow>
             (if is_hex c
              then Some ((if neg then - 1 else 1) * int (digits_val 16 0 v))
              else None))"

section \<open>Data model\<close>

text \<open>The \<open>Vout\<close>, \<open>Vin\<close> and \<open>Transaction\<close> interfaces, with the fields the functions
  below read. The field \<open>value\<close> of an output is \<open>vout_value\<close>, the fields \<open>txid\<close> and
  \<open>vout\<close> of an input are \<open>vin_txid\<close> and \<open>vin_vout\<close>, and \<open>size\<close> is \<open>tx_size\<close>.\<close>

record vout =
  scriptpubkey :: string
  scriptpubkey_asm :: string
  scriptpubkey_type :: string
  scriptpubkey_address :: "string option"
  vout_value :: int

record vin =
  vin_txid :: string
  vin_vout :: int
  prevout :: "vout option"
  scriptsig :: string
  scriptsig_asm :: string
  inner_redeemscript_asm :: "string option"
  inner_witnessscript_asm :: "string option"
  sequence :: int
  witness :: "string list option"
  is_coinbase :: bool

record transaction =
  txid :: string
  version :: int
  locktime :: int
  tx_size :: int
  weight :: int
  vin :: "vin list"
  vout :: "vout list"
  sigops :: "int option"
  flags :: "int option"

text \<open>The helpers this file imports from \<open>script.utils\<close>; their code is not part of the
  sources, so every function that calls one takes them as a parameter.\<close>

record script_utils =
  getVarIntLength :: "rat \<Rightarrow> int"
  parseMultisigScript :: "string \<Rightarrow> (int \<times> int) option"
  isPoint :: "string \<Rightarrow> bool"

section \<open>Policy constants\<close>

definition MAX_STANDARD_TX_WEIGHT :: int where
  "MAX_STANDARD_TX_WEIGHT = 400000"

definition MAX_BLOCK_SIGOPS_COST :: int where
  "MAX_BLOCK_SIGOPS_COST = 80000"

definition MAX_STANDARD_TX_SIGOPS_COST :: int where
  "MAX_STANDARD_TX_SIGOPS_COST = MAX_BLOCK_SIGOPS_COST div 5"

definition MIN_STANDARD_TX_NONWITNESS_SIZE :: int where
  "MIN_STANDARD_TX_NONWITNESS_SIZE = 65"

definition MAX_P2SH_SIGOPS :: rat where
  "MAX_P2SH_SIGOPS = 15"

definition MAX_STANDARD_SCRIPTSIG_SIZE :: rat where
  "MAX_STANDARD_SCRIPTSIG_SIZE = 1650"

definition DUST_RELAY_TX_FEE :: rat where
  "DUST_RELAY_TX_FEE = 3"

definition MAX_OP_RETURN_RELAY :: rat where
  "MAX_OP_RETURN_RELAY = 83"

definition DEFAULT_PERMIT_BAREMULTISIG :: bool where
  "DEFAULT_PERMIT_BAREMULTISIG = True"

section \<open>The opcode table\<close>

definition opcodes :: "(nat \<times> string) list" where
  "opcodes =
    [(0, ''OP_0''), (76, ''OP_PUSHDATA1''), (77, ''OP_PUSHDATA2''), (78, ''OP_PUSHDATA4''),
     (79, ''OP_PUSHNUM_NEG1''), (80, ''OP_RESERVED''), (81, ''OP_PUSHNUM_1''),
     (82, ''OP_PUSHNUM_2''), (83, ''OP_PUSHNUM_3''), (84, ''OP_PUSHNUM_4''),
     (85, ''OP_PUSHNUM_5''), (86, ''OP_PUSHNUM_6''), (87, ''OP_PUSHNUM_7''),
     (88, ''OP_PUSHNUM_8''), (89, ''OP_PUSHNUM_9''), (90, ''OP_PUSHNUM_10''),
     (91, ''OP_PUSHNUM_11''), (92, ''OP_PUSHNUM_12''), (93, ''OP_PUSHNUM_13''),
     (94, ''OP_PUSHNUM_14''), (95, ''OP_PUSHNUM_15''), (96, ''OP_PUSHNUM_16''),
     (97, ''OP_NOP''), (98, ''OP_VER''), (99, ''OP_IF''), (100, ''OP_NOTIF''),
     (101, ''OP_VERIF''), (102, ''OP_VERNOTIF''), (103, ''OP_ELSE''), (104, ''OP_ENDIF''),
     (105, ''OP_VERIFY''), (106, ''OP_RETURN''), (107, ''OP_TOALTSTACK''),
     (108, ''OP_FROMALTSTACK''), (109, ''OP_2DROP''), (110, ''OP_2DUP''), (111, ''OP_3DUP''),
     (112, ''OP_2OVER''), (113, ''OP_2ROT''), (114, ''OP_2SWAP''), (115, ''OP_IFDUP''),
     (116, ''OP_DEPTH''), (117, ''OP_DROP''), (118, ''OP_DUP''), (119, ''OP_NIP''),
     (120, ''OP_OVER''), (121, ''OP_PICK''), (122, ''OP_ROLL''), (123, ''OP_ROT''),
     (124, ''OP_SWAP''), (125, ''OP_TUCK''), (126, ''OP_CAT''), (127, ''OP_SUBSTR''),
     (128, ''OP_LEFT''), (129, ''OP_RIGHT''), (130, ''OP_SIZE''), (131, ''OP_INVERT''),
     (132, ''OP_AND''), (133, ''OP_OR''), (134, ''OP_XOR''), (135, ''OP_EQUAL''),
     (136, ''OP_EQUALVERIFY''), (137, ''OP_RESERVED1''), (138, ''OP_RESERVED2''),
     (139, ''OP_1ADD''), (140, ''OP_1SUB''), (141, ''OP_2MUL''), (142, ''OP_2DIV''),
     (143, ''OP_NEGATE''), (144, ''OP_ABS''), (145, ''OP_NOT''), (146, ''OP_0NOTEQUAL''),
     (147, ''OP_ADD''), (148, ''OP_SUB''), (149, ''OP_MUL''), (150, ''OP_DIV''),
     (151, ''OP_MOD''), (152, ''OP_LSHIFT''), (153, ''OP_RSHIFT''), (154, ''OP_BOOLAND''),
     (155, ''OP_BOOLOR''), (156, ''OP_NUMEQUAL''), (157, ''OP_NUMEQUALVERIFY''),
     (158, ''OP_NUMNOTEQUAL''), (159, ''OP_LESSTHAN''), (160, ''OP_GREATERTHAN''),
     (161, ''OP_LESSTHANOREQUAL''), (162, ''OP_GREATERTHANOREQUAL''), (163, ''OP_MIN''),
     (164, ''OP_MAX''), (165, ''OP_WITHIN''), (166, ''OP_RIPEMD160''), (167, ''OP_SHA1''),
     (168, ''OP_SHA256''), (169, ''OP_HASH160''), (170, ''OP_HASH256''),
     (171, ''OP_CODESEPARATOR''), (172, ''OP_CHECKSIG''), (173, ''OP_CHECKSIGVERIFY''),
     (174, ''OP_CHECKMULTISIG''), (175, ''OP_CHECKMULTISIGVERIFY''), (176, ''OP_NOP1''),
     (177, ''OP_CHECKLOCKTIMEVERIFY''), (178, ''OP_CHECKSEQUENCEVERIFY''), (179, ''OP_NOP4''),
     (180, ''OP_NOP5''), (181, ''OP_NOP6''), (182, ''OP_NOP7''), (183, ''OP_NOP8''),
     (184, ''OP_NOP9''), (185, ''OP_NOP10''), (186, ''OP_CHECKSIGADD''),
     (253, ''OP_PUBKEYHASH''), (254, ''OP_PUBKEY''), (255, ''OP_INVALIDOPCODE'')]"

text \<open>\<open>String(n)\<close> for a natural number: its decimal digits.\<close>

fun string_of_nat :: "nat \<Rightarrow> string" where
  "string_of_nat n =
     (if n < 10 then [char_of (48 + n)]
      else string_of_nat (n div 10) @ [char_of (48 + n mod 10)])"

declare string_of_nat.simps [simp del]

text \<open>\<open>opcodes[key]\<close> for a string key: the table is keyed by numbers, so its own
  properties are the decimal strings of those numbers. (A key that names a member of
  \<open>Object.prototype\<close> yields a function; the only use below compares the result with
  \<open>undefined\<close>, which is false for every left operand.)\<close>

definition opcodes_at :: "string \<Rightarrow> string option" where
  "opcodes_at key = map_of (map (\<lambda>(k, v). (string_of_nat k, v)) opcodes) key"

text \<open>\<open>a > b\<close> on the values of the table: a comparison with \<open>undefined\<close> is false, two
  strings compare by code units.\<close>

definition js_gt :: "string option \<Rightarrow> string option \<Rightarrow> bool" where
  "js_gt a b = (case (a, b) of (Some x, Some y) \<Rightarrow> y < x | _ \<Rightarrow> False)"

section \<open>Signature operations of a script\<close>

text \<open>One match of \<open>/(?:OP_(?:PUSHNUM_)?(\d+))? OP_CHECKMULTISIG/\<close> at the start of a
  string: its length and the value added for it (\<open>parseInt\<close> of the digits when the group
  took part, 20 otherwise). A string cannot start with both \<open>OP_\<close> and a space, so no
  other way to match exists at a position. The digits are read exactly (the source reads
  them as a double).\<close>

definition multisig_match_at :: "string \<Rightarrow> (nat \<times> nat) option" where
  "multisig_match_at s =
     (if startsWith s ''OP_'' then
        (let p = (if startsWith (drop 3 s) ''PUSHNUM_'' then 8 else 0);
             ds = takeWhile is_digit (drop (3 + p) s)
         in if ds \<noteq> [] \<and> startsWith (drop (3 + p + length ds) s) '' OP_CHECKMULTISIG''
            then Some (3 + p + length ds + 16, digits_val 10 0 ds)
            else None)
      else if startsWith s '' OP_CHECKMULTISIG'' then Some (16, 20)
      else None)"

text \<open>\<open>script.matchAll\<close> of that expression: the values of the matches, left to right,
  without overlap.\<close>

fun multisig_matches :: "nat \<Rightarrow> string \<Rightarrow> nat list" where
  "multisig_matches k [] = []"
| "multisig_matches k (c # cs) =
     (if 0 < k then multisig_matches (k - 1) cs
      else (case multisig_match_at (c # cs) of
              Some (len, n) \<Rightarrow> n # multisig_matches (len - 1) cs
            | None \<Rightarrow> multisig_matches 0 cs))"

definition countScriptSigops :: "string \<Rightarrow> bool \<Rightarrow> bool \<Rightarrow> nat" where
  "countScriptSigops script isRawScript wit =
     (if script = [] then 0
      else
        (let sigops = count_matches ''OP_CHECKSIG'' 0 script
               + (if isRawScript then 20 * count_matches ''OP_CHECKMULTISIG'' 0 script
                  else sum_list (multisig_matches 0 script))
         in if wit then sigops else sigops * 4))"

section \<open>Standardness\<close>

subsection \<open>Height-gated rules\<close>

text \<open>Reading \<open>table[network]\<close> from an object literal: an own property, a member
  inherited from \<open>Object.prototype\<close> (a function or an object), or \<open>undefined\<close>.\<close>

datatype property = Undefined | Own int | Inherited

definition Object_prototype :: "string list" where
  "Object_prototype =
     [''constructor'', ''__defineGetter__'', ''__defineSetter__'', ''hasOwnProperty'',
      ''__lookupGetter__'', ''__lookupSetter__'', ''isPrototypeOf'',
      ''propertyIsEnumerable'', ''toString'', ''valueOf'', ''__proto__'', ''toLocaleString'']"

definition get_property :: "(string \<times> int) list \<Rightarrow> string \<Rightarrow> property" where
  "get_property obj key =
     (case map_of obj key of
        Some v \<Rightarrow> Own v
      | None \<Rightarrow> if key \<in> set Object_prototype then Inherited else Undefined)"

text \<open>Truthiness of a property, and \<open>height <= table[network]\<close>: an inherited member
  converts to \<open>NaN\<close>, and every comparison with \<open>NaN\<close> is false.\<close>

fun truthy :: "property \<Rightarrow> bool" where
  "truthy Undefined = False"
| "truthy (Own v) = (v \<noteq> 0)"
| "truthy Inherited = True"

fun le_property :: "int \<Rightarrow> property \<Rightarrow> bool" where
  "le_property h (Own v) = (h \<le> v)"
| "le_property h Undefined = False"
| "le_property h Inherited = False"

definition V3_STANDARDNESS_ACTIVATION_HEIGHT :: "(string \<times> int) list" where
  "V3_STANDARDNESS_ACTIVATION_HEIGHT =
     [(''testnet4'', 42000), (''testnet'', 2900000), (''signet'', 211000), ([], 863500)]"

definition isNonStandardVersion :: "transaction \<Rightarrow> int option \<Rightarrow> string option \<Rightarrow> bool" where
  "isNonStandardVersion tx height network =
     (let TX_MAX_STANDARD_VERSION =
        (case height of
           None \<Rightarrow> 3
         | Some h \<Rightarrow>
             (case network of
                None \<Rightarrow> 3
              | Some n \<Rightarrow>
                  if truthy (get_property V3_STANDARDNESS_ACTIVATION_HEIGHT n)
                     \<and> le_property h (get_property V3_STANDARDNESS_ACTIVATION_HEIGHT n)
                  then 2 else (3::int)))
      in if version tx > TX_MAX_STANDARD_VERSION then True else False)"

definition ANCHOR_STANDARDNESS_ACTIVATION_HEIGHT :: "(string \<times> int) list" where
  "ANCHOR_STANDARDNESS_ACTIVATION_HEIGHT =
     [(''testnet4'', 42000), (''testnet'', 2900000), (''signet'', 211000), ([], 863500)]"

definition isNonStandardAnchor :: "transaction \<Rightarrow> int option \<Rightarrow> string option \<Rightarrow> bool" where
  "isNonStandardAnchor tx height network =
     (case height of
        None \<Rightarrow> False
      | Some h \<Rightarrow>
          (case network of
             None \<Rightarrow> False
           | Some n \<Rightarrow>
               if truthy (get_property ANCHOR_STANDARDNESS_ACTIVATION_HEIGHT n)
                  \<and> le_property h (get_property ANCHOR_STANDARDNESS_ACTIVATION_HEIGHT n)
               then True else False))"

subsection \<open>Witness programs and the non-witness size\<close>

text \<open>The result of \<open>isWitnessProgram\<close> is \<open>false\<close> (here \<open>None\<close>) or the version and the
  program. A version that does not parse is \<open>NaN\<close>: it fails neither range test.\<close>

definition isWitnessProgram :: "string \<Rightarrow> (int \<times> string) option" where
  "isWitnessProgram spk =
     (if length spk < 8 \<or> length spk > 84 then None
      else
        (let ver = parseInt16 (slice spk 0 2) in
         if (case ver of None \<Rightarrow> False | Some v \<Rightarrow> (v \<noteq> 0 \<and> v < 81) \<or> v > 96) then None
         else
           (let push = parseInt16 (slice spk 2 4) in
            if (case push of
                  None \<Rightarrow> False
                | Some p \<Rightarrow> rat_of_int (p + 2) = rat_of_nat (length spk) / 2)
            then Some ((case ver of None \<Rightarrow> 0 | Some v \<Rightarrow> if v \<noteq> 0 then v - 80 else 0),
                       drop 4 spk)
            else None)))"

text \<open>The body of the loop of \<open>getNonWitnessSize\<close> over the inputs: the state is the
  running weight and \<open>hasWitness\<close>.\<close>

definition witness_items_size :: "script_utils \<Rightarrow> string list \<Rightarrow> rat" where
  "witness_items_size su ws =
     sum_list (map (\<lambda>w. rat_of_int (getVarIntLength su (rat_of_nat (length w) / 2))
                          + rat_of_nat (length w) / 2) ws)"

definition nonwitness_step :: "script_utils \<Rightarrow> rat \<times> bool \<Rightarrow> vin \<Rightarrow> rat \<times> bool" where
  "nonwitness_step su st v =
     (case witness v of
        None \<Rightarrow> st
      | Some ws \<Rightarrow>
          if ws = [] then st
          else (fst st - rat_of_int (getVarIntLength su (rat_of_nat (length ws)))
                  - witness_items_size su ws, True))"

definition getNonWitnessSize :: "script_utils \<Rightarrow> transaction \<Rightarrow> int" where
  "getNonWitnessSize su tx =
     (let st = foldl (nonwitness_step su) (rat_of_int (weight tx), False) (vin tx);
          w = (if snd st then fst st - 2 else fst st)
      in \<lceil>w / 4\<rceil>)"

subsection \<open>The validator\<close>

text \<open>\<open>vin.prevout?.scriptpubkey_type\<close>, with \<open>undefined\<close> as \<open>None\<close>.\<close>

definition prevout_type :: "vin \<Rightarrow> string option" where
  "prevout_type v = map_option scriptpubkey_type (prevout v)"

text \<open>The scriptsig-not-pushonly test of one input: \<open>opcodes[op] && opcodes[op] >
  opcodes['OP_16']\<close> for some piece of the disassembly.\<close>

definition scriptsig_not_pushonly :: "vin \<Rightarrow> bool" where
  "scriptsig_not_pushonly v =
     (scriptsig_asm v \<noteq> [] \<and>
      list_ex (\<lambda>op. opcodes_at op \<noteq> None \<and> opcodes_at op \<noteq> Some []
                     \<and> js_gt (opcodes_at op) (opcodes_at ''OP_16''))
        (split_space (scriptsig_asm v)))"

text \<open>One pass of the body of the input loop: \<open>Some b\<close> when the body returns \<open>b\<close> from
  \<open>isNonStandard\<close>, \<open>None\<close> when it falls through to the next input.\<close>

definition vin_check ::
    "transaction \<Rightarrow> int option \<Rightarrow> string option \<Rightarrow> vin \<Rightarrow> bool option" where
  "vin_check tx height network v =
     (if is_coinbase v then Some False
      else if rat_of_nat (length (scriptsig v)) / 2 > MAX_STANDARD_SCRIPTSIG_SIZE then Some True
      else if scriptsig_not_pushonly v then Some True
      else if prevout_type v = Some ''p2sh'' then
        (let sigops = rat_of_nat (countScriptSigops
                         (case inner_redeemscript_asm v of None \<Rightarrow> [] | Some a \<Rightarrow> a)
                         False False) / 4
         in if sigops > MAX_P2SH_SIGOPS then Some True else None)
      else if (case prevout_type v of None \<Rightarrow> [] | Some t \<Rightarrow> t)
                \<in> set [''unknown'', ''provably_unspendable'', ''empty''] then Some True
      else if isNonStandardAnchor tx height network then Some True
      else None)"

fun vin_loop ::
    "transaction \<Rightarrow> int option \<Rightarrow> string option \<Rightarrow> vin list \<Rightarrow> bool option" where
  "vin_loop tx height network [] = None"
| "vin_loop tx height network (v # vs) =
     (case vin_check tx height network v of
        Some b \<Rightarrow> Some b
      | None \<Rightarrow> vin_loop tx height network vs)"

text \<open>The dust test at the end of the body of the output loop.\<close>

definition dustSize :: "script_utils \<Rightarrow> vout \<Rightarrow> rat" where
  "dustSize su out =
     (let d = rat_of_nat (length (scriptpubkey out)) / 2;
          d = d + rat_of_int (getVarIntLength su d);
          d = d + 8
      in if isWitnessProgram (scriptpubkey out) \<noteq> None then d + 67 else d + 148)"

definition is_dust :: "script_utils \<Rightarrow> vout \<Rightarrow> bool" where
  "is_dust su out =
     (scriptpubkey_type out \<noteq> ''op_return''
      \<and> rat_of_int (vout_value out) < dustSize su out * DUST_RELAY_TX_FEE)"

text \<open>One pass of the body of the output loop: \<open>True\<close> when it returns \<open>true\<close>.\<close>

definition vout_check :: "script_utils \<Rightarrow> vout \<Rightarrow> bool" where
  "vout_check su out =
     (if scriptpubkey_type out \<in> set [''nonstandard'', ''provably_unspendable'', ''empty'']
      then True
      else if scriptpubkey_type out = ''unknown'' then
        (if startsWith (scriptpubkey out) ''00'' \<or> isWitnessProgram (scriptpubkey out) = None
         then True else is_dust su out)
      else if scriptpubkey_type out = ''multisig'' then
        (if \<not> DEFAULT_PERMIT_BAREMULTISIG then True
         else (case parseMultisigScript su (scriptpubkey_asm out) of
                 None \<Rightarrow> True
               | Some (m, n) \<Rightarrow>
                   if n < 1 \<or> n > 3 \<or> m < 1 \<or> m > n then True else is_dust su out))
      else if scriptpubkey_type out = ''op_return'' then
        (if rat_of_nat (length (scriptpubkey out)) / 2 > MAX_OP_RETURN_RELAY then True
         else is_dust su out)
      else is_dust su out)"

text \<open>The output loop with its counter, and the multi-op-return test after it.\<close>

fun vout_loop :: "script_utils \<Rightarrow> nat \<Rightarrow> vout list \<Rightarrow> bool" where
  "vout_loop su opreturnCount [] = (if opreturnCount > 1 then True else False)"
| "vout_loop su opreturnCount (out # outs) =
     (if vout_check su out then True
      else vout_loop su
             (if scriptpubkey_type out = ''op_return'' then opreturnCount + 1
              else opreturnCount) outs)"

definition isNonStandard ::
    "script_utils \<Rightarrow> transaction \<Rightarrow> int option \<Rightarrow> string option \<Rightarrow> bool" where
  "isNonStandard su tx height network =
     (if isNonStandardVersion tx height network then True
      else if weight tx > MAX_STANDARD_TX_WEIGHT then True
      else if getNonWitnessSize su tx < MIN_STANDARD_TX_NONWITNESS_SIZE then True
      else if (case sigops tx of
                 None \<Rightarrow> False
               | Some s \<Rightarrow> s \<noteq> 0 \<and> s > MAX_STANDARD_TX_SIGOPS_COST) then True
      else (case vin_loop tx height network (vin tx) of
              Some b \<Rightarrow> b
            | None \<Rightarrow> vout_loop su 0 (vout tx)))"

text \<open>The gate as the specification words it: a height is given, the network is one of the
  four keys of the table, and the height is at most the entry of that network.\<close>

definition height_gated :: "int option \<Rightarrow> string option \<Rightarrow> bool" where
  "height_gated height network =
     (case height of
        None \<Rightarrow> False
      | Some h \<Rightarrow>
          (case network of
             None \<Rightarrow> False
           | Some n \<Rightarrow>
               (n = ''testnet4'' \<and> h \<le> 42000) \<or> (n = ''testnet'' \<and> h \<le> 2900000)
               \<or> (n = ''signet'' \<and> h \<le> 211000) \<or> (n = [] \<and> h \<le> 863500)))"

text \<open>The four tests before the loops, as one predicate: none of them returns \<open>true\<close>.\<close>

definition passes_preliminary_checks ::
    "script_utils \<Rightarrow> transaction \<Rightarrow> int option \<Rightarrow> string option \<Rightarrow> bool" where
  "passes_preliminary_checks su tx height network =
     (\<not> isNonStandardVersion tx height network
      \<and> \<not> weight tx > MAX_STANDARD_TX_WEIGHT
      \<and> \<not> getNonWitnessSize su tx < MIN_STANDARD_TX_NONWITNESS_SIZE
      \<and> \<not> (case sigops tx of
               None \<Rightarrow> False
             | Some s \<Rightarrow> s \<noteq> 0 \<and> s > MAX_STANDARD_TX_SIGOPS_COST))"

text \<open>An output of type \<open>op_return\<close>.\<close>

definition is_op_return :: "vout \<Rightarrow> bool" where
  "is_op_return out = (scriptpubkey_type out = ''op_return'')"

section \<open>Prioritized transactions\<close>

text \<open>A \<open>TransactionStripped\<close>, with the two fields \<open>identifyPrioritizedTransactions\<close>
  reads; its \<open>txid\<close> is \<open>stx_txid\<close>.\<close>

record stripped =
  stx_txid :: string
  rate :: rat

text \<open>The arrays \<open>M\<close> and \<open>P\<close> are created with holes: an entry is \<open>None\<close> until it is
  assigned. \<open>X[k]\<close> for a number \<open>k\<close> or \<open>undefined\<close> is \<open>undefined\<close> outside the array.
  Reading a field of \<open>undefined\<close> throws a \<open>TypeError\<close>, which is the result \<open>None\<close> of the
  functions below.\<close>

type_synonym js_array = "nat \<Rightarrow> int option"

definition at_index :: "'a list \<Rightarrow> int option \<Rightarrow> 'a option" where
  "at_index X k =
     (case k of
        None \<Rightarrow> None
      | Some i \<Rightarrow> if 0 \<le> i \<and> i < int (length X) then Some (X ! nat i) else None)"

definition array_at :: "js_array \<Rightarrow> int option \<Rightarrow> int option" where
  "array_at P k =
     (case k of
        None \<Rightarrow> None
      | Some i \<Rightarrow> if 0 \<le> i then P (nat i) else None)"

text \<open>The binary search for one \<open>i\<close>: the \<open>while (lo < hi)\<close> loop, with \<open>r\<close> the rate of
  \<open>X[i]\<close>.\<close>

function binary_search ::
    "stripped list \<Rightarrow> js_array \<Rightarrow> rat \<Rightarrow> nat \<Rightarrow> nat \<Rightarrow> nat option" where
  "binary_search X M r lo hi =
     (if lo < hi then
        (case at_index X (M (lo + (hi - lo) div 2)) of
           None \<Rightarrow> None
         | Some x \<Rightarrow>
             if rate x > r then binary_search X M r lo (lo + (hi - lo) div 2)
             else binary_search X M r (lo + (hi - lo) div 2 + 1) hi)
      else Some lo)"
  by pat_completeness auto
termination
  by (relation "measure (\<lambda>(X, M, r, lo, hi). hi - lo)") auto

declare binary_search.simps [simp del]

text \<open>The \<open>for\<close> loop over \<open>i\<close>, on the state \<open>(M, P, L)\<close>.\<close>

fun lis_loop ::
    "stripped list \<Rightarrow> nat list \<Rightarrow> js_array \<times> js_array \<times> nat
     \<Rightarrow> (js_array \<times> js_array \<times> nat) option" where
  "lis_loop X [] st = Some st"
| "lis_loop X (i # rest) (M, P, L) =
     (case binary_search X M (rate (X ! i)) 1 (L + 1) of
        None \<Rightarrow> None
      | Some newL \<Rightarrow>
          lis_loop X rest
            (M(newL := Some (int i)), P(i := M (newL - 1)), if newL > L then newL else L))"

text \<open>The reconstruction loop, \<open>j\<close> running down from \<open>L - 1\<close>: the entries of \<open>LIS\<close> from
  index 0 to \<open>j\<close>, with \<open>k\<close> the index into \<open>X\<close> for \<open>LIS[j]\<close>. The first argument is
  \<open>j + 1\<close>.\<close>

fun reconstruct :: "stripped list \<Rightarrow> js_array \<Rightarrow> nat \<Rightarrow> int option \<Rightarrow> stripped option list" where
  "reconstruct X P 0 k = []"
| "reconstruct X P (Suc j) k = reconstruct X P j (array_at P k) @ [at_index X k]"

text \<open>\<open>X\<close> and the longest increasing subsequence \<open>LIS\<close> that the function computes from it;
  \<open>None\<close> when the computation throws.\<close>

definition increasing_view :: "stripped list \<Rightarrow> stripped list" where
  "increasing_view transactions = rev (drop 1 transactions)"

definition longest_increasing_subsequence :: "stripped list \<Rightarrow> stripped option list option" where
  "longest_increasing_subsequence X =
     (case lis_loop X [0..<length X] ((\<lambda>l. None)(0 := Some (- 1)), (\<lambda>i. None), 0) of
        None \<Rightarrow> None
      | Some (M, P, L) \<Rightarrow> Some (reconstruct X P L (M L)))"

text \<open>The last loop: \<open>lisMap.has\<close> only depends on the identifiers of \<open>LIS\<close>. The state is
  \<open>(lastRate, prioritized, deprioritized)\<close>.\<close>

definition classify_step ::
    "string list \<Rightarrow> rat \<times> string list \<times> string list \<Rightarrow> stripped
     \<Rightarrow> rat \<times> string list \<times> string list" where
  "classify_step lisMap st tx =
     (case st of (lastRate, prioritized, deprioritized) \<Rightarrow>
        if stx_txid tx \<in> set lisMap then (rate tx, prioritized, deprioritized)
        else if \<bar>rate tx - lastRate\<bar> < 1 / 10 then (lastRate, prioritized, deprioritized)
        else if rate tx \<le> lastRate then (lastRate, prioritized @ [stx_txid tx], deprioritized)
        else (lastRate, prioritized, deprioritized @ [stx_txid tx]))"

definition identifyPrioritizedTransactions ::
    "stripped list \<Rightarrow> (string list \<times> string list) option" where
  "identifyPrioritizedTransactions transactions =
     (let X = increasing_view transactions in
      if length X < 2 then Some ([], [])
      else
        (case longest_increasing_subsequence X of
           None \<Rightarrow> None
         | Some LIS \<Rightarrow>
             if None \<in> set LIS then None
             else
               (let lisMap = map (\<lambda>e. case e of None \<Rightarrow> [] | Some tx \<Rightarrow> stx_txid tx) LIS;
                    st = foldl (classify_step lisMap) (0, [], []) X
                in Some (fst (snd st), snd (snd st)))))"

text \<open>The block of the scenario: a coinbase entry, then transactions with the fee rates 9, 4,
  8, 3 and 5 in block order.\<close>

definition block_order ::
    "stripped \<Rightarrow> string \<Rightarrow> string \<Rightarrow> string \<Rightarrow> string \<Rightarrow> string \<Rightarrow> stripped list" where
  "block_order coinbase t9 t4 t8 t3 t5 =
     [coinbase, \<lparr>stx_txid = t9, rate = 9\<rparr>, \<lparr>stx_txid = t4, rate = 4\<rparr>,
      \<lparr>stx_txid = t8, rate = 8\<rparr>, \<lparr>stx_txid = t3, rate = 3\<rparr>, \<lparr>stx_txid = t5, rate = 5\<rparr>]"

section \<open>The transaction codec\<close>

subsection \<open>Numbers and the buffer\<close>

text \<open>A JavaScript number that holds an integer: \<open>Number(n)\<close> of a \<open>BigInt\<close> and the result
  of an addition of two such numbers are the nearest double, ties to even. Below \<open>2^53\<close>
  in absolute value nothing is rounded.\<close>

definition Number :: "int \<Rightarrow> int" where
  "Number n =
     (if \<bar>n\<bar> < 2 ^ 53 then n
      else
        (let e = nat (bitlen \<bar>n\<bar>) - 53;
             q = \<bar>n\<bar> div 2 ^ e;
             r = \<bar>n\<bar> mod 2 ^ e;
             q = (if r > 2 ^ (e - 1) \<or> (r = 2 ^ (e - 1) \<and> odd q) then q + 1 else q)
         in sgn n * q * 2 ^ e))"

text \<open>The buffer is a \<open>Uint8Array\<close>: a list of bytes. \<open>buffer[offset]\<close> is \<open>undefined\<close>
  (\<open>None\<close>) outside the array, also for a negative offset; a bitwise operator reads
  \<open>undefined\<close> as 0.\<close>

type_synonym byte = nat

definition byte_at :: "byte list \<Rightarrow> int \<Rightarrow> byte option" where
  "byte_at buffer offset =
     (if 0 \<le> offset \<and> offset < int (length buffer) then Some (buffer ! nat offset) else None)"

definition or0 :: "byte option \<Rightarrow> int" where
  "or0 b = (case b of None \<Rightarrow> 0 | Some v \<Rightarrow> int v)"

text \<open>\<open>b0 | (b1 << 8) | (b2 << 16) | (b3 << 24)\<close> on 32-bit signed integers.\<close>

definition int32 :: "int \<Rightarrow> int \<Rightarrow> int \<Rightarrow> int \<Rightarrow> int" where
  "int32 b0 b1 b2 b3 =
     signed_take_bit 31 (b0 OR push_bit 8 b1 OR push_bit 16 b2 OR push_bit 24 b3)"

text \<open>\<open>buffer.slice(start, end)\<close> of a typed array: a negative index counts from the end,
  and both are clamped to the array.\<close>

definition relative_index :: "byte list \<Rightarrow> int \<Rightarrow> nat" where
  "relative_index buffer i =
     (if i < 0 then nat (max (int (length buffer) + i) 0) else nat (min i (int (length buffer))))"

definition typed_slice :: "byte list \<Rightarrow> int \<Rightarrow> int \<Rightarrow> byte list" where
  "typed_slice buffer start fin =
     take (relative_index buffer fin - relative_index buffer start)
       (drop (relative_index buffer start) buffer)"

text \<open>\<open>byte.toString(16).padStart(2, '0')\<close> and \<open>uint8ArrayToHexString\<close>.\<close>

definition hex_char :: "nat \<Rightarrow> char" where
  "hex_char d = (if d < 10 then char_of (48 + d) else char_of (87 + d))"

definition hex_of_byte :: "byte \<Rightarrow> string" where
  "hex_of_byte b = [hex_char (b div 16), hex_char (b mod 16)]"

definition uint8ArrayToHexString :: "byte list \<Rightarrow> string" where
  "uint8ArrayToHexString bs = concat (map hex_of_byte bs)"

text \<open>Storing \<open>parseInt(two characters, 16)\<close> into a \<open>Uint8Array\<close>: \<open>NaN\<close> is stored as 0,
  any other number modulo 256.\<close>

definition byte_of_hex :: "string \<Rightarrow> byte" where
  "byte_of_hex s = (case parseInt16 s of None \<Rightarrow> 0 | Some v \<Rightarrow> nat (v mod 256))"

text \<open>\<open>hexStringToUint8Array\<close>: \<open>hex.length / 2\<close> bytes, rounded down, each from the two
  characters at its place.\<close>

definition hexStringToUint8Array :: "string \<Rightarrow> byte list" where
  "hexStringToUint8Array hex =
     map (\<lambda>i. byte_of_hex (take 2 (drop (i * 2) hex))) [0..<length hex div 2]"

subsection \<open>Reading from the buffer\<close>

text \<open>The messages of the errors that \<open>decodeRawTransaction\<close> and \<open>fromBuffer\<close> throw.\<close>

datatype error =
    Invalid_hex_string
  | Buffer_out_of_bounds
  | Cannot_read_slice_out_of_bounds
  | Invalid_VarInt_prefix
  | Transaction_has_unexpected_data

text \<open>Each reader takes the buffer and the offset and returns its value and the new offset,
  or the error it throws. \<open>readInt8\<close> returns \<open>buffer[offset++]\<close>, which may be
  \<open>undefined\<close>.\<close>

definition readInt8 :: "byte list \<Rightarrow> int \<Rightarrow> error + (byte option \<times> int)" where
  "readInt8 buffer offset =
     (if Number (offset + 1) > int (length buffer) then Inl Buffer_out_of_bounds
      else Inr (byte_at buffer offset, Number (offset + 1)))"

definition readInt16 :: "byte list \<Rightarrow> int \<Rightarrow> error + (int \<times> int)" where
  "readInt16 buffer offset =
     (if Number (offset + 2) > int (length buffer) then Inl Buffer_out_of_bounds
      else Inr (int32 (or0 (byte_at buffer offset)) (or0 (byte_at buffer (Number (offset + 1))))
                  0 0,
                Number (offset + 2)))"

text \<open>The four bytes at the given places, combined to a 32-bit signed integer.\<close>

definition int32_at :: "byte list \<Rightarrow> int \<Rightarrow> int \<Rightarrow> int \<Rightarrow> int \<Rightarrow> int" where
  "int32_at buffer i0 i1 i2 i3 =
     int32 (or0 (byte_at buffer i0)) (or0 (byte_at buffer i1))
       (or0 (byte_at buffer i2)) (or0 (byte_at buffer i3))"

definition readInt32 :: "byte list \<Rightarrow> bool \<Rightarrow> int \<Rightarrow> error + (int \<times> int)" where
  "readInt32 buffer is_unsigned offset =
     (if Number (offset + 4) > int (length buffer) then Inl Buffer_out_of_bounds
      else
        (let v = int32_at buffer offset (Number (offset + 1)) (Number (offset + 2))
                   (Number (offset + 3))
         in Inr (if is_unsigned then take_bit 32 v else v, Number (offset + 4))))"

text \<open>\<open>(high << 32n) | (low & 0xffffffffn)\<close> on \<open>BigInt\<close>s: the result is a signed 64-bit
  value.\<close>

definition readInt64 :: "byte list \<Rightarrow> int \<Rightarrow> error + (int \<times> int)" where
  "readInt64 buffer offset =
     (if Number (offset + 8) > int (length buffer) then Inl Buffer_out_of_bounds
      else
        (let low = int32_at buffer offset (Number (offset + 1)) (Number (offset + 2))
                     (Number (offset + 3));
             high = int32_at buffer (Number (offset + 4)) (Number (offset + 5))
                      (Number (offset + 6)) (Number (offset + 7))
         in Inr (push_bit 32 high OR (low AND 4294967295), Number (offset + 8))))"

definition readVarInt :: "byte list \<Rightarrow> int \<Rightarrow> error + (int \<times> int)" where
  "readVarInt buffer offset =
     (case readInt8 buffer offset of
        Inl e \<Rightarrow> Inl e
      | Inr (first, offset) \<Rightarrow>
          (case first of
             None \<Rightarrow> Inl Invalid_VarInt_prefix
           | Some f \<Rightarrow>
               if f < 253 then Inr (int f, offset)
               else if f = 253 then readInt16 buffer offset
               else if f = 254 then readInt32 buffer True offset
               else if f = 255 then readInt64 buffer offset
               else Inl Invalid_VarInt_prefix))"

definition readSlice :: "byte list \<Rightarrow> int \<Rightarrow> int \<Rightarrow> error + (byte list \<times> int)" where
  "readSlice buffer n offset =
     (let len = Number n in
      if Number (offset + len) > int (length buffer) then Inl Cannot_read_slice_out_of_bounds
      else Inr (typed_slice buffer offset (Number (offset + len)), Number (offset + len)))"

definition readVarSlice :: "byte list \<Rightarrow> int \<Rightarrow> error + (byte list \<times> int)" where
  "readVarSlice buffer offset =
     (case readVarInt buffer offset of
        Inl e \<Rightarrow> Inl e
      | Inr (n, offset) \<Rightarrow> readSlice buffer n offset)"

text \<open>The loop of \<open>readVector\<close>, for the number of items still to read, and \<open>readVector\<close>.
  A negative count runs the loop zero times.\<close>

fun read_items :: "byte list \<Rightarrow> nat \<Rightarrow> int \<Rightarrow> error + (byte list list \<times> int)" where
  "read_items buffer 0 offset = Inr ([], offset)"
| "read_items buffer (Suc k) offset =
     (case readVarSlice buffer offset of
        Inl e \<Rightarrow> Inl e
      | Inr (item, offset) \<Rightarrow>
          (case read_items buffer k offset of
             Inl e \<Rightarrow> Inl e
           | Inr (items, offset) \<Rightarrow> Inr (item # items, offset)))"

definition readVector :: "byte list \<Rightarrow> int \<Rightarrow> error + (byte list list \<times> int)" where
  "readVector buffer offset =
     (case readVarInt buffer offset of
        Inl e \<Rightarrow> Inl e
      | Inr (n, offset) \<Rightarrow> read_items buffer (nat n) offset)"

subsection \<open>Disassembly\<close>

text \<open>The name that \<open>convertScriptSigAsm\<close> pushes for an opcode that is not a push.\<close>

definition opcode_name :: "byte \<Rightarrow> string" where
  "opcode_name op =
     (if op = 0 then ''OP_0''
      else if op = 79 then ''OP_PUSHNUM_NEG1''
      else if op = 177 then ''OP_CLTV''
      else if op = 178 then ''OP_CSV''
      else if op = 186 then ''OP_CHECKSIGADD''
      else (case map_of opcodes op of
              Some name \<Rightarrow> name
            | None \<Rightarrow> ''OP_RETURN_'' @ string_of_nat op))"

text \<open>For a push opcode at index \<open>i\<close>: the length \<open>push\<close> (\<open>undefined\<close> when
  \<open>OP_PUSHDATA1\<close> is the last byte), the name pushed, and the index after the length.\<close>

definition push_header :: "byte list \<Rightarrow> nat \<Rightarrow> byte \<Rightarrow> int option \<times> string \<times> nat" where
  "push_header buf i op =
     (if op = 76 then
        (map_option int (byte_at buf (int i + 1)), ''OP_PUSHDATA1'', i + 2)
      else if op = 77 then
        (Some (int32 (or0 (byte_at buf (int i + 1))) (or0 (byte_at buf (int i + 2))) 0 0),
         ''OP_PUSHDATA2'', i + 3)
      else if op = 78 then
        (Some (int32_at buf (int i + 1) (int i + 2) (int i + 3) (int i + 4)),
         ''OP_PUSHDATA4'', i + 5)
      else (Some (int op), ''OP_PUSHBYTES_'' @ string_of_nat op, i + 1))"

text \<open>\<open>buf.slice(i, i + push)\<close>; the end is \<open>NaN\<close>, read as 0, when \<open>push\<close> is
  \<open>undefined\<close>.\<close>

definition push_data :: "byte list \<Rightarrow> nat \<Rightarrow> int option \<Rightarrow> byte list" where
  "push_data buf j push =
     (case push of
        None \<Rightarrow> typed_slice buf (int j) 0
      | Some p \<Rightarrow> typed_slice buf (int j) (int j + p))"

text \<open>The \<open>while\<close> loop of \<open>convertScriptSigAsm\<close>, with the index \<open>i\<close> and the pieces \<open>b\<close>
  pushed so far.\<close>

function asm_loop :: "byte list \<Rightarrow> nat \<Rightarrow> string list \<Rightarrow> string list" where
  "asm_loop buf i b =
     (if i < length buf then
        (if 1 \<le> buf ! i \<and> buf ! i \<le> 78 then
           (if Some (int (length (push_data buf (snd (snd (push_header buf i (buf ! i))))
                                    (fst (push_header buf i (buf ! i))))))
                 \<noteq> fst (push_header buf i (buf ! i))
            then b @ [fst (snd (push_header buf i (buf ! i)))]
            else asm_loop buf
                   (snd (snd (push_header buf i (buf ! i)))
                    + length (push_data buf (snd (snd (push_header buf i (buf ! i))))
                                (fst (push_header buf i (buf ! i)))))
                   (b @ [fst (snd (push_header buf i (buf ! i))),
                         uint8ArrayToHexString
                           (push_data buf (snd (snd (push_header buf i (buf ! i))))
                              (fst (push_header buf i (buf ! i))))]))
         else asm_loop buf (i + 1) (b @ [opcode_name (buf ! i)]))
      else b)"
  by pat_completeness auto
termination
  by (relation "measure (\<lambda>(buf, i, b). length buf - i)")
     (auto simp add: push_header_def)

declare asm_loop.simps [simp del]

text \<open>\<open>b.join(' ')\<close>.\<close>

fun join_space :: "string list \<Rightarrow> string" where
  "join_space [] = []"
| "join_space [x] = x"
| "join_space (x # y # ys) = x @ '' '' @ join_space (y # ys)"

definition convertScriptSigAsm :: "string \<Rightarrow> string" where
  "convertScriptSigAsm hex = join_space (asm_loop (hexStringToUint8Array hex) 0 [])"

subsection \<open>Script types\<close>

text \<open>The hash of \<open>./sha256\<close> is not part of the sources. The five address encoders are
  (Base58Check over that hash, Bech32 and Bech32m), but no property below depends on an
  address string, so they are parameters here as well: each is a function of the hash or
  key in the script and of the network, and none of them throws on the digits it is given.\<close>

record encoders =
  Hash :: "byte list \<Rightarrow> byte list"
  p2pkh :: "string \<Rightarrow> string \<Rightarrow> string"
  p2sh :: "string \<Rightarrow> string \<Rightarrow> string"
  p2wpkh :: "string \<Rightarrow> string \<Rightarrow> string"
  p2wsh :: "string \<Rightarrow> string \<Rightarrow> string"
  p2tr :: "string \<Rightarrow> string \<Rightarrow> string"

definition lower_hex :: "char \<Rightarrow> bool" where
  "lower_hex c =
     ((48 \<le> (of_char c :: nat) \<and> (of_char c :: nat) \<le> 57)
      \<or> (97 \<le> (of_char c :: nat) \<and> (of_char c :: nat) \<le> 102))"

text \<open>\<open>/^prefix[0-9a-f]{n}suffix$/.test(s)\<close>.\<close>

definition matches_template :: "string \<Rightarrow> nat \<Rightarrow> string \<Rightarrow> string \<Rightarrow> bool" where
  "matches_template prefix n suffix s =
     (length s = length prefix + n + length suffix
      \<and> take (length prefix) s = prefix
      \<and> list_all lower_hex (take n (drop (length prefix) s))
      \<and> drop (length prefix + n) s = suffix)"

text \<open>The result of \<open>scriptPubKeyToAddress\<close>: the address (\<open>null\<close> is \<open>None\<close>) and the
  type.\<close>

definition scriptPubKeyToAddress :: "encoders \<Rightarrow> string \<Rightarrow> string \<Rightarrow> string option \<times> string" where
  "scriptPubKeyToAddress env spk network =
     (if matches_template ''76a914'' 40 ''88ac'' spk
      then (Some (p2pkh env (take 40 (drop 6 spk)) network), ''p2pkh'')
      else if matches_template ''21'' 66 ''ac'' spk \<or> matches_template ''41'' 130 ''ac'' spk
      then (None, ''p2pk'')
      else if matches_template ''a914'' 40 ''87'' spk
      then (Some (p2sh env (take 40 (drop 4 spk)) network), ''p2sh'')
      else if matches_template ''0014'' 40 [] spk
      then (Some (p2wpkh env (take 40 (drop 4 spk)) network), ''v0_p2wpkh'')
      else if matches_template ''0020'' 64 [] spk
      then (Some (p2wsh env (take 64 (drop 4 spk)) network), ''v0_p2wsh'')
      else if matches_template ''5120'' 64 [] spk
      then (Some (p2tr env (take 64 (drop 4 spk)) network), ''v1_p2tr'')
      else if 3 \<le> length spk \<and> list_all lower_hex (take (length spk - 2) spk)
              \<and> drop (length spk - 2) spk = ''ae''
      then (None, ''multisig'')
      else if spk = ''51024e73'' then (Some ''bc1pfeessrawgf'', ''anchor'')
      else if take 2 spk = ''6a'' then (None, ''op_return'')
      else (None, ''unknown''))"

subsection \<open>Serialization and the identifier\<close>

text \<open>\<open>intToBytes\<close>: \<open>>>\<close> works on the 32-bit signed value of the number, with the shift
  count modulo 32.\<close>

definition intToBytes :: "int \<Rightarrow> nat \<Rightarrow> byte list" where
  "intToBytes v byteLength =
     map (\<lambda>i. nat (drop_bit ((8 * i) mod 32) (signed_take_bit 31 v) AND 255)) [0..<byteLength]"

definition bigIntToBytes :: "int \<Rightarrow> nat \<Rightarrow> byte list" where
  "bigIntToBytes v byteLength =
     map (\<lambda>i. nat (drop_bit (8 * i) v AND 255)) [0..<byteLength]"

text \<open>\<open>varIntToBytes\<close> for a number, which is what \<open>serializeTransaction\<close> passes (a
  length): above \<open>0xffffffff\<close> no byte is pushed.\<close>

definition varIntToBytes :: "nat \<Rightarrow> byte list" where
  "varIntToBytes v =
     (if v < 253 then [v]
      else if v \<le> 65535 then
        [253, nat (int v AND 255), nat (drop_bit 8 (signed_take_bit 31 (int v)) AND 255)]
      else if v \<le> 4294967295 then 254 # intToBytes (int v) 4
      else [])"

definition serialize_input :: "vin \<Rightarrow> byte list" where
  "serialize_input input =
     rev (hexStringToUint8Array (vin_txid input))
     @ intToBytes (vin_vout input) 4
     @ varIntToBytes (length (hexStringToUint8Array (scriptsig input)))
     @ hexStringToUint8Array (scriptsig input)
     @ intToBytes (sequence input) 4"

definition serialize_output :: "vout \<Rightarrow> byte list" where
  "serialize_output output =
     bigIntToBytes (vout_value output) 8
     @ varIntToBytes (length (hexStringToUint8Array (scriptpubkey output)))
     @ hexStringToUint8Array (scriptpubkey output)"

definition serializeTransaction :: "transaction \<Rightarrow> byte list" where
  "serializeTransaction tx =
     intToBytes (version tx) 4
     @ varIntToBytes (length (vin tx))
     @ concat (map serialize_input (vin tx))
     @ varIntToBytes (length (vout tx))
     @ concat (map serialize_output (vout tx))
     @ intToBytes (locktime tx) 4"

text \<open>The function \<open>txid\<close>, here \<open>compute_txid\<close>: the double hash of the serialization,
  reversed, in hexadecimal.\<close>

definition compute_txid :: "encoders \<Rightarrow> transaction \<Rightarrow> string" where
  "compute_txid env tx =
     uint8ArrayToHexString (rev (Hash env (Hash env (serializeTransaction tx))))"

subsection \<open>Decoding\<close>

text \<open>The body of the loop over the inputs, and the loop for the number of inputs still to
  read. The loop counters of \<open>fromBuffer\<close> are compared with a \<open>BigInt\<close> count; a negative
  count runs a loop zero times. (The model has no bound on the length of an array or on
  memory.)\<close>

definition read_vin :: "byte list \<Rightarrow> int \<Rightarrow> error + (vin \<times> int)" where
  "read_vin buffer offset =
     (case readSlice buffer 32 offset of
        Inl e \<Rightarrow> Inl e
      | Inr (hash, offset) \<Rightarrow>
          (case readInt32 buffer True offset of
             Inl e \<Rightarrow> Inl e
           | Inr (index, offset) \<Rightarrow>
               (case readVarSlice buffer offset of
                  Inl e \<Rightarrow> Inl e
                | Inr (script, offset) \<Rightarrow>
                    (case readInt32 buffer True offset of
                       Inl e \<Rightarrow> Inl e
                     | Inr (sequence_number, offset) \<Rightarrow>
                         Inr (\<lparr>vin_txid = uint8ArrayToHexString (rev hash),
                               vin_vout = index,
                               prevout = None,
                               scriptsig = uint8ArrayToHexString script,
                               scriptsig_asm =
                                 convertScriptSigAsm (uint8ArrayToHexString script),
                               inner_redeemscript_asm = None,
                               inner_witnessscript_asm = None,
                               sequence = sequence_number,
                               witness = None,
                               is_coinbase =
                                 (uint8ArrayToHexString (rev hash) = replicate 64 (CHR ''0''))\<rparr>,
                              offset)))))"

fun read_vins :: "byte list \<Rightarrow> nat \<Rightarrow> int \<Rightarrow> error + (vin list \<times> int)" where
  "read_vins buffer 0 offset = Inr ([], offset)"
| "read_vins buffer (Suc k) offset =
     (case read_vin buffer offset of
        Inl e \<Rightarrow> Inl e
      | Inr (input, offset) \<Rightarrow>
          (case read_vins buffer k offset of
             Inl e \<Rightarrow> Inl e
           | Inr (inputs, offset) \<Rightarrow> Inr (input # inputs, offset)))"

text \<open>The same for the outputs.\<close>

definition read_vout :: "encoders \<Rightarrow> string \<Rightarrow> byte list \<Rightarrow> int \<Rightarrow> error + (vout \<times> int)" where
  "read_vout env network buffer offset =
     (case readInt64 buffer offset of
        Inl e \<Rightarrow> Inl e
      | Inr (amount, offset) \<Rightarrow>
          (case readVarSlice buffer offset of
             Inl e \<Rightarrow> Inl e
           | Inr (script, offset) \<Rightarrow>
               Inr (\<lparr>scriptpubkey = uint8ArrayToHexString script,
                     scriptpubkey_asm = convertScriptSigAsm (uint8ArrayToHexString script),
                     scriptpubkey_type =
                       snd (scriptPubKeyToAddress env (uint8ArrayToHexString script) network),
                     scriptpubkey_address =
                       fst (scriptPubKeyToAddress env (uint8ArrayToHexString script) network),
                     vout_value = Number amount\<rparr>,
                    offset)))"

fun read_vouts ::
    "encoders \<Rightarrow> string \<Rightarrow> byte list \<Rightarrow> nat \<Rightarrow> int \<Rightarrow> error + (vout list \<times> int)" where
  "read_vouts env network buffer 0 offset = Inr ([], offset)"
| "read_vouts env network buffer (Suc k) offset =
     (case read_vout env network buffer offset of
        Inl e \<Rightarrow> Inl e
      | Inr (output, offset) \<Rightarrow>
          (case read_vouts env network buffer k offset of
             Inl e \<Rightarrow> Inl e
           | Inr (outputs, offset) \<Rightarrow> Inr (output # outputs, offset)))"

text \<open>The loop that reads one witness stack for each input.\<close>

fun read_witnesses :: "byte list \<Rightarrow> nat \<Rightarrow> int \<Rightarrow> error + (string list list \<times> int)" where
  "read_witnesses buffer 0 offset = Inr ([], offset)"
| "read_witnesses buffer (Suc k) offset =
     (case readVector buffer offset of
        Inl e \<Rightarrow> Inl e
      | Inr (items, offset) \<Rightarrow>
          (case read_witnesses buffer k offset of
             Inl e \<Rightarrow> Inl e
           | Inr (stacks, offset) \<Rightarrow>
               Inr (map uint8ArrayToHexString items # stacks, offset)))"

text \<open>What \<open>fromBuffer\<close> has read when it has passed its test for unexpected data: the
  version, the inputs with their witnesses, the outputs, the locktime, \<open>hasWitnesses\<close> and
  \<open>witnessSize\<close>.\<close>

definition read_transaction ::
    "encoders \<Rightarrow> byte list \<Rightarrow> string
     \<Rightarrow> error + (int \<times> vin list \<times> vout list \<times> int \<times> bool \<times> int)" where
  "read_transaction env buffer network =
     (case readInt32 buffer False 0 of
        Inl e \<Rightarrow> Inl e
      | Inr (ver, offset) \<Rightarrow>
     (case readInt8 buffer offset of
        Inl e \<Rightarrow> Inl e
      | Inr (marker, offset) \<Rightarrow>
     (case readInt8 buffer offset of
        Inl e \<Rightarrow> Inl e
      | Inr (flag, offset) \<Rightarrow>
     (let hasWitnesses = (marker = Some 0 \<and> flag = Some 1);
          offset = (if hasWitnesses then offset else Number (offset - 2))
      in
     (case readVarInt buffer offset of
        Inl e \<Rightarrow> Inl e
      | Inr (vinLen, offset) \<Rightarrow>
     (case read_vins buffer (nat vinLen) offset of
        Inl e \<Rightarrow> Inl e
      | Inr (inputs, offset) \<Rightarrow>
     (case readVarInt buffer offset of
        Inl e \<Rightarrow> Inl e
      | Inr (voutLen, offset) \<Rightarrow>
     (case read_vouts env network buffer (nat voutLen) offset of
        Inl e \<Rightarrow> Inl e
      | Inr (outputs, offset) \<Rightarrow>
     (case (if hasWitnesses
            then (case read_witnesses buffer (nat vinLen) offset of
                    Inl e \<Rightarrow> Inl e
                  | Inr (stacks, after) \<Rightarrow>
                      Inr (map2 (\<lambda>input stack. input\<lparr>witness := Some stack\<rparr>) inputs stacks,
                           Number (Number (after - offset) + 2), after))
            else Inr (inputs, 0, offset)) of
        Inl e \<Rightarrow> Inl e
      | Inr (inputs, witnessSize, offset) \<Rightarrow>
     (case readInt32 buffer True offset of
        Inl e \<Rightarrow> Inl e
      | Inr (lock, offset) \<Rightarrow>
          if offset \<noteq> int (length buffer) then Inl Transaction_has_unexpected_data
          else Inr (ver, inputs, outputs, lock, hasWitnesses, witnessSize)))))))))))"

definition fromBuffer :: "encoders \<Rightarrow> byte list \<Rightarrow> string \<Rightarrow> error + transaction" where
  "fromBuffer env buffer network =
     (case read_transaction env buffer network of
        Inl e \<Rightarrow> Inl e
      | Inr (ver, inputs, outputs, lock, hasWitnesses, witnessSize) \<Rightarrow>
          (let tx = \<lparr>txid = [],
                     version = ver,
                     locktime = lock,
                     tx_size = int (length buffer),
                     weight = (int (length buffer) - witnessSize) * 3 + int (length buffer),
                     vin = inputs,
                     vout = outputs,
                     sigops = None,
                     flags = None\<rparr>
           in Inr (tx\<lparr>txid := compute_txid env tx\<rparr>)))"

text \<open>The test \<open>!rawtx.length || rawtx.length % 2 !== 0 || !/^[0-9a-fA-F]*$/.test(rawtx)\<close>
  of \<open>decodeRawTransaction\<close>.\<close>

definition invalid_hex_string :: "string \<Rightarrow> bool" where
  "invalid_hex_string rawtx =
     (rawtx = [] \<or> length rawtx mod 2 \<noteq> 0 \<or> \<not> list_all is_hex rawtx)"

definition decodeRawTransaction :: "encoders \<Rightarrow> string \<Rightarrow> string \<Rightarrow> error + transaction" where
  "decodeRawTransaction env rawtx network =
     (if invalid_hex_string rawtx
      then Inl Invalid_hex_string
      else fromBuffer env
             (map (\<lambda>i. byte_of_hex (take 2 (drop (2 * i) rawtx))) [0..<length rawtx div 2])
             network)"

subsection \<open>Well-formed raw transactions\<close>

text \<open>The decoder accepts more than the serializations of transactions, so the round trip is
  stated from the side of the encoder: a well-formed raw transaction is the hexadecimal
  text of the serialization of some transaction whose numbers fit their fields. The
  serialization without witness data is \<open>serializeTransaction\<close>; the one with witness data
  puts the marker and the flag after the version and one witness stack for each input
  before the locktime, each count and length as \<open>varIntToBytes\<close> writes it.\<close>

definition witness_of :: "vin \<Rightarrow> string list" where
  "witness_of input = (case witness input of None \<Rightarrow> [] | Some items \<Rightarrow> items)"

definition witness_item_bytes :: "string \<Rightarrow> byte list" where
  "witness_item_bytes item =
     varIntToBytes (length (hexStringToUint8Array item)) @ hexStringToUint8Array item"

definition witness_stack_bytes :: "string list \<Rightarrow> byte list" where
  "witness_stack_bytes items =
     varIntToBytes (length items) @ concat (map witness_item_bytes items)"

definition witness_bytes :: "transaction \<Rightarrow> byte list" where
  "witness_bytes tx = concat (map (\<lambda>input. witness_stack_bytes (witness_of input)) (vin tx))"

definition inputs_and_outputs :: "transaction \<Rightarrow> byte list" where
  "inputs_and_outputs tx =
     varIntToBytes (length (vin tx))
     @ concat (map serialize_input (vin tx))
     @ varIntToBytes (length (vout tx))
     @ concat (map serialize_output (vout tx))"

definition serialize_with_witness :: "transaction \<Rightarrow> byte list" where
  "serialize_with_witness tx =
     intToBytes (version tx) 4
     @ [0, 1]
     @ inputs_and_outputs tx
     @ witness_bytes tx
     @ intToBytes (locktime tx) 4"

text \<open>The numbers of a transaction fit their fields: the identifier of the spent
  transaction has 32 bytes, indices, sequence numbers and the locktime are unsigned 32-bit
  values, the version is a signed one, a value is an amount below \<open>2^53\<close>, and every
  count and length is below \<open>2^32\<close>.\<close>

definition fits_witness_item :: "string \<Rightarrow> bool" where
  "fits_witness_item item = (length (hexStringToUint8Array item) < 2 ^ 32)"

definition fits_vin :: "vin \<Rightarrow> bool" where
  "fits_vin input =
     (length (hexStringToUint8Array (vin_txid input)) = 32
      \<and> 0 \<le> vin_vout input \<and> vin_vout input < 2 ^ 32
      \<and> length (hexStringToUint8Array (scriptsig input)) < 2 ^ 32
      \<and> 0 \<le> sequence input \<and> sequence input < 2 ^ 32
      \<and> length (witness_of input) < 2 ^ 32
      \<and> list_all fits_witness_item (witness_of input))"

definition fits_vout :: "vout \<Rightarrow> bool" where
  "fits_vout output =
     (0 \<le> vout_value output \<and> vout_value output < 2 ^ 53
      \<and> length (hexStringToUint8Array (scriptpubkey output)) < 2 ^ 32)"

definition fits :: "transaction \<Rightarrow> bool" where
  "fits tx =
     (- (2 ^ 31) \<le> version tx \<and> version tx < 2 ^ 31
      \<and> 0 \<le> locktime tx \<and> locktime tx < 2 ^ 32
      \<and> length (vin tx) < 2 ^ 32 \<and> list_all fits_vin (vin tx)
      \<and> length (vout tx) < 2 ^ 32 \<and> list_all fits_vout (vout tx)
      \<and> length (serialize_with_witness tx) < 2 ^ 53)"

text \<open>The transaction that the decoder returns for a serialization of \<open>tx\<close>: strings are
  the hexadecimal text of their bytes, the derived fields are filled in, and the witness
  stacks are present when the serialization carries them.\<close>

definition rehex :: "string \<Rightarrow> string" where
  "rehex s = uint8ArrayToHexString (hexStringToUint8Array s)"

definition decoded_vin :: "bool \<Rightarrow> vin \<Rightarrow> vin" where
  "decoded_vin with_witness input =
     \<lparr>vin_txid = rehex (vin_txid input),
      vin_vout = vin_vout input,
      prevout = None,
      scriptsig = rehex (scriptsig input),
      scriptsig_asm = convertScriptSigAsm (rehex (scriptsig input)),
      inner_redeemscript_asm = None,
      inner_witnessscript_asm = None,
      sequence = sequence input,
      witness = (if with_witness then Some (map rehex (witness_of input)) else None),
      is_coinbase = (rehex (vin_txid input) = replicate 64 (CHR ''0''))\<rparr>"

definition decoded_vout :: "encoders \<Rightarrow> string \<Rightarrow> vout \<Rightarrow> vout" where
  "decoded_vout env network output =
     \<lparr>scriptpubkey = rehex (scriptpubkey output),
      scriptpubkey_asm = convertScriptSigAsm (rehex (scriptpubkey output)),
      scriptpubkey_type = snd (scriptPubKeyToAddress env (rehex (scriptpubkey output)) network),
      scriptpubkey_address =
        fst (scriptPubKeyToAddress env (rehex (scriptpubkey output)) network),
      vout_value = vout_value output\<rparr>"

definition decoded :: "encoders \<Rightarrow> string \<Rightarrow> bool \<Rightarrow> transaction \<Rightarrow> transaction" where
  "decoded env network with_witness tx =
     \<lparr>txid = compute_txid env tx,
      version = version tx,
      locktime = locktime tx,
      tx_size = int (length (if with_witness then serialize_with_witness tx
                             else serializeTransaction tx)),
      weight = 3 * int (length (serializeTransaction tx))
               + int (length (if with_witness then serialize_with_witness tx
                              else serializeTransaction tx)),
      vin = map (decoded_vin with_witness) (vin tx),
      vout = map (decoded_vout env network) (vout tx),
      sigops = None,
      flags = None\<rparr>"

text \<open>The bytes \<open>enc\<close>, followed by \<open>rest\<close>, are what the buffer holds from the offset on.\<close>

definition stands_at :: "byte list \<Rightarrow> int \<Rightarrow> byte list \<Rightarrow> byte list \<Rightarrow> bool" where
  "stands_at buffer offset enc rest =
     (0 \<le> offset \<and> offset \<le> int (length buffer) \<and> drop (nat offset) buffer = enc @ rest)"

text \<open>The same for a witness stack.\<close>

definition fits_stack :: "string list \<Rightarrow> bool" where
  "fits_stack ws = (length ws < 2 ^ 32 \<and> list_all fits_witness_item ws)"

text \<open>A well-formed raw transaction: a non-empty text of hexadecimal digits, an even number
  of them, whose bytes are the serialization, with or without witness data, of a
  transaction with at least one input whose numbers fit their fields.\<close>

definition well_formed :: "string \<Rightarrow> bool \<Rightarrow> transaction \<Rightarrow> bool" where
  "well_formed rawtx with_witness tx =
     (rawtx \<noteq> [] \<and> even (length rawtx) \<and> list_all is_hex rawtx
      \<and> fits tx \<and> vin tx \<noteq> []
      \<and> hexStringToUint8Array rawtx
        = (if with_witness then serialize_with_witness tx else serializeTransaction tx))"

section \<open>Example transactions\<close>

text \<open>Modelled from the spec: \<open>getVarIntLength\<close> of \<open>script.utils\<close> is not in the sources.
  The specification calls its result the varint overhead of a length; this is the number
  of bytes of Bitcoin's variable-length integer, with the thresholds that
  \<open>varIntToBytes\<close> of this file uses. It is used to evaluate the functions at concrete
  transactions only; the general theorems hold for every \<open>getVarIntLength\<close>.\<close>

definition getVarIntLength_model :: "rat \<Rightarrow> int" where
  "getVarIntLength_model n =
     (if n < 253 then 1 else if n \<le> 65535 then 3 else if n \<le> 4294967295 then 5 else 9)"

text \<open>The helpers used for the examples. No example has a multisig or a p2pk output, so
  \<open>parseMultisigScript\<close> and \<open>isPoint\<close> are never called on them.\<close>

definition example_utils :: script_utils where
  "example_utils =
     \<lparr>getVarIntLength = getVarIntLength_model,
      parseMultisigScript = (\<lambda>asm. None),
      isPoint = (\<lambda>key. False)\<rparr>"

text \<open>A 22-byte P2WPKH script, an output paying to it, an \<open>OP_RETURN\<close> output, an input
  without signature data and a version 2 transaction of weight 400 around them.\<close>

definition p2wpkh_script :: string where
  "p2wpkh_script = ''00141111111111111111111111111111111111111111''"

definition example_vout :: "int \<Rightarrow> vout" where
  "example_vout v =
     \<lparr>scriptpubkey = p2wpkh_script,
      scriptpubkey_asm = ''OP_0 OP_PUSHBYTES_20 1111111111111111111111111111111111111111'',
      scriptpubkey_type = ''v0_p2wpkh'',
      scriptpubkey_address = None,
      vout_value = v\<rparr>"

definition example_op_return :: vout where
  "example_op_return =
     \<lparr>scriptpubkey = ''6a0568656c6c6f'',
      scriptpubkey_asm = ''OP_RETURN OP_PUSHBYTES_5 68656c6c6f'',
      scriptpubkey_type = ''op_return'',
      scriptpubkey_address = None,
      vout_value = 0\<rparr>"

definition example_vin :: "bool \<Rightarrow> vout option \<Rightarrow> vin" where
  "example_vin cb p =
     \<lparr>vin_txid = (if cb then replicate 64 (CHR ''0'') else replicate 64 (CHR ''a'')),
      vin_vout = 0,
      prevout = p,
      scriptsig = [],
      scriptsig_asm = [],
      inner_redeemscript_asm = None,
      inner_witnessscript_asm = None,
      sequence = 4294967295,
      witness = None,
      is_coinbase = cb\<rparr>"

definition example_tx :: "vin list \<Rightarrow> vout list \<Rightarrow> transaction" where
  "example_tx ins outs =
     \<lparr>txid = replicate 64 (CHR ''b''),
      version = 2,
      locktime = 0,
      tx_size = 100,
      weight = 400,
      vin = ins,
      vout = outs,
      sigops = None,
      flags = None\<rparr>"

text \<open>A hash and encoders to evaluate the codec with. The theorems hold for every hash and
  all encoders; no example depends on the choice.\<close>

definition example_encoders :: encoders where
  "example_encoders =
     \<lparr>Hash = (\<lambda>bytes. bytes),
      p2pkh = (\<lambda>h network. []),
      p2sh = (\<lambda>h network. []),
      p2wpkh = (\<lambda>h network. []),
      p2wsh = (\<lambda>h network. []),
      p2tr = (\<lambda>h network. [])\<rparr>"

definition hex32 :: "string \<Rightarrow> string" where
  "hex32 b = concat (replicate 32 b)"

text \<open>A raw transaction with witness data: version 2, two inputs, the second with the
  one-byte signature script \<open>51\<close>, one output of 1000 to the P2WPKH script, the witness
  stack \<open>aa\<close>, \<open>bb\<close> for the first input and the empty stack for the second, locktime 0.
  It has 132 bytes, 6 of witness data and 2 of marker and flag.\<close>

definition raw_segwit :: string where
  "raw_segwit = ''02000000'' @ ''0001'' @ ''02''
     @ hex32 ''aa'' @ ''00000000'' @ ''00'' @ ''ffffffff''
     @ hex32 ''bb'' @ ''01000000'' @ ''0151'' @ ''ffffffff''
     @ ''01'' @ ''e803000000000000'' @ ''16'' @ p2wpkh_script
     @ ''0201aa01bb'' @ ''00''
     @ ''00000000''"

definition segwit_vin :: "string \<Rightarrow> int \<Rightarrow> string \<Rightarrow> string list \<Rightarrow> vin" where
  "segwit_vin b index script stack =
     \<lparr>vin_txid = hex32 b,
      vin_vout = index,
      prevout = None,
      scriptsig = script,
      scriptsig_asm = [],
      inner_redeemscript_asm = None,
      inner_witnessscript_asm = None,
      sequence = 4294967295,
      witness = Some stack,
      is_coinbase = False\<rparr>"

definition segwit_tx :: transaction where
  "segwit_tx =
     example_tx [segwit_vin ''aa'' 0 [] [''aa'', ''bb''], segwit_vin ''bb'' 1 ''51'' []]
       [example_vout 1000]"

text \<open>A raw transaction without witness data whose only input announces a signature script
  of \<open>0xffffffffffffffc9\<close> bytes, and nothing after that length.\<close>

definition raw_negative_length :: string where
  "raw_negative_length = ''01000000'' @ ''01'' @ hex32 ''aa'' @ ''00000000''
     @ ''ffc9ffffffffffffff''"

text \<open>Its 50 bytes.\<close>

definition negative_length_bytes :: "byte list" where
  "negative_length_bytes =
     [1, 0, 0, 0, 1,
      170, 170, 170, 170, 170, 170, 170, 170, 170, 170, 170, 170, 170, 170, 170, 170,
      170, 170, 170, 170, 170, 170, 170, 170, 170, 170, 170, 170, 170, 170, 170, 170,
      0, 0, 0, 0,
      255, 201, 255, 255, 255, 255, 255, 255, 255]"

section \<open>Properties of the standardness validator\<close>

subsection \<open>The height gates\<close>

lemma V3_gate:
  "(truthy (get_property V3_STANDARDNESS_ACTIVATION_HEIGHT n)
     \<and> le_property h (get_property V3_STANDARDNESS_ACTIVATION_HEIGHT n))
   = height_gated (Some h) (Some n)"
  by (simp add: get_property_def V3_STANDARDNESS_ACTIVATION_HEIGHT_def height_gated_def)

lemma anchor_gate:
  "(truthy (get_property ANCHOR_STANDARDNESS_ACTIVATION_HEIGHT n)
     \<and> le_property h (get_property ANCHOR_STANDARDNESS_ACTIVATION_HEIGHT n))
   = height_gated (Some h) (Some n)"
  by (simp add: get_property_def ANCHOR_STANDARDNESS_ACTIVATION_HEIGHT_def height_gated_def)

lemma isNonStandardVersion_gated:
  "isNonStandardVersion tx height network
     = (version tx > (if height_gated height network then 2 else 3))"
  unfolding isNonStandardVersion_def
  by (cases height; cases network) (simp_all add: V3_gate, simp_all add: height_gated_def)

lemma isNonStandardAnchor_gated:
  "isNonStandardAnchor tx height network = height_gated height network"
  unfolding isNonStandardAnchor_def
  by (cases height; cases network) (simp_all add: anchor_gate, simp_all add: height_gated_def)

lemma vin_loop_cong_anchor:
  "isNonStandardAnchor tx h n = isNonStandardAnchor tx' h' n'
   \<Longrightarrow> vin_loop tx h n vs = vin_loop tx' h' n' vs"
  by (induction vs) (simp_all add: vin_check_def)

lemma isNonStandard_ungated:
  assumes "\<not> height_gated height network"
  shows "isNonStandard su tx height network = isNonStandard su tx None None"
proof -
  have a: "isNonStandardAnchor tx height network = isNonStandardAnchor tx None None"
    using assms by (simp add: isNonStandardAnchor_gated height_gated_def)
  have v: "isNonStandardVersion tx height network = isNonStandardVersion tx None None"
    using assms by (simp add: isNonStandardVersion_gated height_gated_def)
  show ?thesis
    by (simp only: isNonStandard_def v vin_loop_cong_anchor [OF a])
qed

text \<open>Claim C10. Both height-gated rules fire exactly when a height is given, the network is
  one of the four keys \<open>testnet4\<close>, \<open>testnet\<close>, \<open>signet\<close> and the empty string, and the
  height is at most the entry of that network. For every other network string, the string
  \<open>mainnet\<close> among them, the version limit is 3, the anchor rule never applies, and
  \<open>isNonStandard\<close> returns what it returns without a height and a network.\<close>

theorem height_gates_listed_networks_only:
  "isNonStandardVersion tx height network
     = (version tx > (if height_gated height network then 2 else 3))
   \<and> isNonStandardAnchor tx height network = height_gated height network
   \<and> (n \<notin> {''testnet4'', ''testnet'', ''signet'', []} \<longrightarrow>
        isNonStandardVersion tx height (Some n) = (version tx > 3)
        \<and> \<not> isNonStandardAnchor tx height (Some n)
        \<and> isNonStandard su tx height (Some n) = isNonStandard su tx None None)"
proof (intro conjI impI)
  show "isNonStandardVersion tx height network
     = (version tx > (if height_gated height network then 2 else 3))"
    by (rule isNonStandardVersion_gated)
  show "isNonStandardAnchor tx height network = height_gated height network"
    by (rule isNonStandardAnchor_gated)
next
  assume n: "n \<notin> {''testnet4'', ''testnet'', ''signet'', []}"
  have g: "\<not> height_gated height (Some n)"
    using n by (cases height) (simp_all add: height_gated_def)
  show "isNonStandardVersion tx height (Some n) = (version tx > 3)"
    by (simp only: isNonStandardVersion_gated g if_False)
  show "\<not> isNonStandardAnchor tx height (Some n)"
    by (simp only: isNonStandardAnchor_gated g not_False_eq_True)
  show "isNonStandard su tx height (Some n) = isNonStandard su tx None None"
    by (rule isNonStandard_ungated [OF g])
qed

theorem height_gates_listed_networks_only_witness:
  "\<forall>tx su height.
     isNonStandardVersion tx height (Some ''mainnet'') = (version tx > 3)
     \<and> \<not> isNonStandardAnchor tx height (Some ''mainnet'')
     \<and> isNonStandard su tx height (Some ''mainnet'') = isNonStandard su tx None None"
proof (intro allI)
  fix tx su height
  have h: "''mainnet'' \<notin> {''testnet4'', ''testnet'', ''signet'', []}" by simp
  have "''mainnet'' \<notin> {''testnet4'', ''testnet'', ''signet'', []} \<longrightarrow>
        isNonStandardVersion tx height (Some ''mainnet'') = (version tx > 3)
        \<and> \<not> isNonStandardAnchor tx height (Some ''mainnet'')
        \<and> isNonStandard su tx height (Some ''mainnet'') = isNonStandard su tx None None"
    using height_gates_listed_networks_only [of tx height "Some ''mainnet''" "''mainnet''" su]
    by (elim conjE)
  then show "isNonStandardVersion tx height (Some ''mainnet'') = (version tx > 3)
     \<and> \<not> isNonStandardAnchor tx height (Some ''mainnet'')
     \<and> isNonStandard su tx height (Some ''mainnet'') = isNonStandard su tx None None"
    using h by (rule mp)
qed

subsection \<open>The loops over the inputs and the outputs\<close>

lemma isNonStandard_alt:
  "isNonStandard su tx h n =
     (if \<not> passes_preliminary_checks su tx h n then True
      else (case vin_loop tx h n (vin tx) of Some b \<Rightarrow> b | None \<Rightarrow> vout_loop su 0 (vout tx)))"
proof -
  have "(if a then True else if b then True else if c then True else if d then True else x)
          = (if \<not> (\<not> a \<and> \<not> b \<and> \<not> c \<and> \<not> d) then True else x)" for a b c d x
    by simp
  then show ?thesis
    unfolding isNonStandard_def passes_preliminary_checks_def .
qed

lemma vin_loop_coinbase:
  "list_all (\<lambda>v. vin_check tx h n v \<noteq> Some True) pre \<Longrightarrow> is_coinbase cb
   \<Longrightarrow> vin_loop tx h n (pre @ cb # rest) = Some False"
proof (induction pre)
  case Nil
  then show ?case by (simp add: vin_check_def)
next
  case (Cons v pre)
  then show ?case by (cases "vin_check tx h n v") auto
qed

text \<open>Claim C3. When the four preliminary tests pass and the inputs hold a coinbase input
  before any input that violates an input rule, \<open>isNonStandard\<close> returns \<open>false\<close>, whatever
  the inputs after the coinbase input and whatever the outputs are.\<close>

theorem coinbase_input_short_circuits:
  assumes "passes_preliminary_checks su tx h n"
    and "vin tx = pre @ cb # rest"
    and "is_coinbase cb"
    and "list_all (\<lambda>v. vin_check tx h n v \<noteq> Some True) pre"
  shows "isNonStandard su tx h n = False"
  using assms vin_loop_coinbase [of tx h n pre cb rest]
  by (simp add: isNonStandard_alt)

lemma vin_loop_no_coinbase:
  "list_all (\<lambda>v. \<not> is_coinbase v) vs \<Longrightarrow> vin_loop tx h n vs \<noteq> Some False"
proof (induction vs)
  case Nil
  then show ?case by simp
next
  case (Cons v vs)
  then have "vin_check tx h n v \<noteq> Some False"
    by (simp add: vin_check_def Let_def)
  with Cons show ?case by (cases "vin_check tx h n v") auto
qed

lemma vout_loop_op_returns:
  "2 \<le> c + length (filter is_op_return outs) \<Longrightarrow> vout_loop su c outs"
proof (induction outs arbitrary: c)
  case Nil
  then show ?case by simp
next
  case (Cons out outs)
  show ?case
  proof (cases "vout_check su out")
    case True
    then show ?thesis by simp
  next
    case False
    have t: "is_op_return out = (scriptpubkey_type out = ''op_return'')"
      by (simp add: is_op_return_def)
    have "2 \<le> (if scriptpubkey_type out = ''op_return'' then c + 1 else c)
               + length (filter is_op_return outs)"
      using Cons.prems t by (cases "is_op_return out") simp_all
    from Cons.IH [OF this] False show ?thesis by simp
  qed
qed

text \<open>Claim C2, amended. A transaction with two or more \<open>op_return\<close> outputs and no coinbase
  input is non-standard for every height and network.\<close>

theorem two_op_returns_nonstandard:
  assumes "2 \<le> length (filter is_op_return (vout tx))"
    and "list_all (\<lambda>v. \<not> is_coinbase v) (vin tx)"
  shows "isNonStandard su tx h n"
proof (cases "passes_preliminary_checks su tx h n")
  case False
  then show ?thesis by (simp add: isNonStandard_alt)
next
  case True
  have out: "vout_loop su 0 (vout tx)"
    using assms(1) by (intro vout_loop_op_returns) simp
  have "vin_loop tx h n (vin tx) \<noteq> Some False"
    by (rule vin_loop_no_coinbase [OF assms(2)])
  then show ?thesis
    using True out by (cases "vin_loop tx h n (vin tx)") (auto simp: isNonStandard_alt)
qed

lemma dustSize_value [simp]: "dustSize su (out\<lparr>vout_value := v\<rparr>) = dustSize su out"
  by (simp add: dustSize_def)

lemma vout_check_dust: "is_dust su out \<Longrightarrow> vout_check su out"
  by (simp add: vout_check_def split: option.split prod.split)

lemma vout_check_value:
  assumes "is_dust su (out\<lparr>vout_value := v\<rparr>) = is_dust su (out\<lparr>vout_value := w\<rparr>)"
  shows "vout_check su (out\<lparr>vout_value := v\<rparr>) = vout_check su (out\<lparr>vout_value := w\<rparr>)"
  using assms by (simp add: vout_check_def split: option.split prod.split)

lemma vout_loop_replace:
  "vout_check su a = vout_check su b \<Longrightarrow> scriptpubkey_type a = scriptpubkey_type b
   \<Longrightarrow> vout_loop su c (pre @ a # post) = vout_loop su c (pre @ b # post)"
  by (induction pre arbitrary: c) simp_all

lemma vout_loop_dust:
  "is_dust su out \<Longrightarrow> vout_loop su c (pre @ out # post)"
  by (induction pre arbitrary: c) (simp_all add: vout_check_dust)

lemma passes_preliminary_checks_vout [simp]:
  "passes_preliminary_checks su (tx\<lparr>vout := outs\<rparr>) h n = passes_preliminary_checks su tx h n"
  by (simp add: passes_preliminary_checks_def isNonStandardVersion_def getNonWitnessSize_def)

lemma vin_loop_vout [simp]:
  "vin_loop (tx\<lparr>vout := outs\<rparr>) h n vs = vin_loop tx h n vs"
  by (rule vin_loop_cong_anchor) (simp add: isNonStandardAnchor_def)

text \<open>Claim C6, amended. Take a transaction without a coinbase input that is standard when one
  of its outputs, not of type \<open>op_return\<close>, carries some value at or above the dust threshold
  of that output, three times the script length plus the varint overhead plus 8 plus 67 for
  a witness program and 148 otherwise. Then it is standard with the value at the threshold
  and non-standard with the value one below it.\<close>

theorem dust_threshold_boundary:
  assumes "scriptpubkey_type out \<noteq> ''op_return''"
    and "list_all (\<lambda>v. \<not> is_coinbase v) (vin tx)"
    and "rat_of_int thr = dustSize su out * DUST_RELAY_TX_FEE"
    and "thr \<le> v0"
    and "\<not> isNonStandard su (tx\<lparr>vout := pre @ out\<lparr>vout_value := v0\<rparr> # post\<rparr>) h n"
  shows "dustSize su out =
           rat_of_nat (length (scriptpubkey out)) / 2
           + rat_of_int (getVarIntLength su (rat_of_nat (length (scriptpubkey out)) / 2)) + 8
           + (if isWitnessProgram (scriptpubkey out) \<noteq> None then 67 else 148)
         \<and> \<not> isNonStandard su (tx\<lparr>vout := pre @ out\<lparr>vout_value := thr\<rparr> # post\<rparr>) h n
         \<and> isNonStandard su (tx\<lparr>vout := pre @ out\<lparr>vout_value := thr - 1\<rparr> # post\<rparr>) h n"
proof (intro conjI)
  show "dustSize su out =
           rat_of_nat (length (scriptpubkey out)) / 2
           + rat_of_int (getVarIntLength su (rat_of_nat (length (scriptpubkey out)) / 2)) + 8
           + (if isWitnessProgram (scriptpubkey out) \<noteq> None then 67 else 148)"
    by (simp add: dustSize_def Let_def)
  have pre0: "passes_preliminary_checks su tx h n"
    using assms(5) by (simp add: isNonStandard_alt split: if_splits)
  have d0: "\<not> is_dust su (out\<lparr>vout_value := v0\<rparr>)"
    using assms(3,4) by (simp add: is_dust_def flip: assms(3))
  have dt: "\<not> is_dust su (out\<lparr>vout_value := thr\<rparr>)"
    using assms(3) by (simp add: is_dust_def)
  have "vout_loop su 0 (pre @ out\<lparr>vout_value := thr\<rparr> # post)
          = vout_loop su 0 (pre @ out\<lparr>vout_value := v0\<rparr> # post)"
    by (rule vout_loop_replace) (simp_all add: vout_check_value d0 dt)
  then show "\<not> isNonStandard su (tx\<lparr>vout := pre @ out\<lparr>vout_value := thr\<rparr> # post\<rparr>) h n"
    using assms(5) pre0 by (cases "vin_loop tx h n (vin tx)") (simp_all add: isNonStandard_alt)
  have "is_dust su (out\<lparr>vout_value := thr - 1\<rparr>)"
    using assms(1,3) by (simp add: is_dust_def flip: assms(3))
  then have out: "vout_loop su 0 (pre @ out\<lparr>vout_value := thr - 1\<rparr> # post)"
    by (rule vout_loop_dust)
  have "vin_loop tx h n (vin tx) \<noteq> Some False"
    by (rule vin_loop_no_coinbase [OF assms(2)])
  then show "isNonStandard su (tx\<lparr>vout := pre @ out\<lparr>vout_value := thr - 1\<rparr> # post\<rparr>) h n"
    using out pre0 by (cases "vin_loop tx h n (vin tx)") (simp_all add: isNonStandard_alt)
qed

subsection \<open>Evaluation at the example transactions\<close>

theorem coinbase_input_short_circuits_witness:
  "isNonStandard example_utils
     (example_tx
        [example_vin False (Some (example_vout 5000)), example_vin True None,
         example_vin False (Some ((example_vout 5000)\<lparr>scriptpubkey_type := ''unknown''\<rparr>))]
        [example_vout 0])
     None None = False"
proof (rule coinbase_input_short_circuits
    [where pre = "[example_vin False (Some (example_vout 5000))]"
       and cb = "example_vin True None"
       and rest = "[example_vin False
                      (Some ((example_vout 5000)\<lparr>scriptpubkey_type := ''unknown''\<rparr>))]"])
  show "passes_preliminary_checks example_utils
     (example_tx
        [example_vin False (Some (example_vout 5000)), example_vin True None,
         example_vin False (Some ((example_vout 5000)\<lparr>scriptpubkey_type := ''unknown''\<rparr>))]
        [example_vout 0])
     None None"
    by code_simp
  show "vin (example_tx
        [example_vin False (Some (example_vout 5000)), example_vin True None,
         example_vin False (Some ((example_vout 5000)\<lparr>scriptpubkey_type := ''unknown''\<rparr>))]
        [example_vout 0])
      = [example_vin False (Some (example_vout 5000))] @ example_vin True None
        # [example_vin False (Some ((example_vout 5000)\<lparr>scriptpubkey_type := ''unknown''\<rparr>))]"
    by (simp add: example_tx_def)
  show "is_coinbase (example_vin True None)"
    by (simp add: example_vin_def)
  show "list_all (\<lambda>v. vin_check (example_tx
        [example_vin False (Some (example_vout 5000)), example_vin True None,
         example_vin False (Some ((example_vout 5000)\<lparr>scriptpubkey_type := ''unknown''\<rparr>))]
        [example_vout 0]) None None v \<noteq> Some True) [example_vin False (Some (example_vout 5000))]"
    by code_simp
qed

text \<open>Claim C2 as stated fails: a transaction with a coinbase input and two \<open>op_return\<close>
  outputs is reported standard.\<close>

theorem two_op_returns_counterexample:
  "length (filter is_op_return
      (vout (example_tx [example_vin True None] [example_op_return, example_op_return]))) = 2
   \<and> \<not> isNonStandard example_utils
         (example_tx [example_vin True None] [example_op_return, example_op_return]) None None"
  by code_simp

theorem two_op_returns_nonstandard_witness:
  "isNonStandard example_utils
     (example_tx [example_vin False None] [example_op_return, example_op_return]) None None"
proof (rule two_op_returns_nonstandard)
  show "2 \<le> length (filter is_op_return
      (vout (example_tx [example_vin False None] [example_op_return, example_op_return])))"
    by code_simp
  show "list_all (\<lambda>v. \<not> is_coinbase v)
      (vin (example_tx [example_vin False None] [example_op_return, example_op_return]))"
    by code_simp
qed

text \<open>Claim C6 as stated fails: with a coinbase input, the output one satoshi below its
  threshold of 294 leaves the transaction standard.\<close>

theorem dust_threshold_counterexample:
  "scriptpubkey_type (example_vout 293) \<noteq> ''op_return''
   \<and> dustSize example_utils (example_vout 293) * DUST_RELAY_TX_FEE = 294
   \<and> \<not> isNonStandard example_utils (example_tx [example_vin True None] [example_vout 294])
         None None
   \<and> \<not> isNonStandard example_utils (example_tx [example_vin True None] [example_vout 293])
         None None"
  by code_simp

theorem dust_threshold_boundary_witness:
  "dustSize example_utils (example_vout 0) = 22 + 1 + 8 + 67
   \<and> \<not> isNonStandard example_utils
         (example_tx [example_vin False (Some (example_vout 5000))] [example_vout 294]) None None
   \<and> isNonStandard example_utils
         (example_tx [example_vin False (Some (example_vout 5000))] [example_vout 293]) None None"
proof -
  have 1: "scriptpubkey_type (example_vout 0) \<noteq> ''op_return''"
    by code_simp
  have 2: "list_all (\<lambda>v. \<not> is_coinbase v)
      (vin (example_tx [example_vin False (Some (example_vout 5000))] []))"
    by code_simp
  have 3: "rat_of_int 294 = dustSize example_utils (example_vout 0) * DUST_RELAY_TX_FEE"
    by code_simp
  have 4: "(294::int) \<le> 1000"
    by simp
  have u: "(example_tx ins [])\<lparr>vout := [] @ (example_vout 0)\<lparr>vout_value := v\<rparr> # []\<rparr>
             = example_tx ins [example_vout v]" for ins v
    by (simp add: example_tx_def example_vout_def)
  have 5: "\<not> isNonStandard example_utils
      ((example_tx [example_vin False (Some (example_vout 5000))] [])
         \<lparr>vout := [] @ (example_vout 0)\<lparr>vout_value := 1000\<rparr> # []\<rparr>) None None"
    unfolding u by code_simp
  have d: "dustSize example_utils (example_vout 0) = 22 + 1 + 8 + 67"
    by code_simp
  have r: "\<not> isNonStandard example_utils
         (example_tx [example_vin False (Some (example_vout 5000))] [example_vout 294]) None None
   \<and> isNonStandard example_utils
         (example_tx [example_vin False (Some (example_vout 5000))] [example_vout 293]) None None"
    using conjunct2 [OF dust_threshold_boundary [OF 1 2 3 4 5]] unfolding u by simp
  show ?thesis
    using d r by (rule conjI)
qed

text \<open>Claim C1 (the anchor rule makes the result \<open>true\<close> only for a transaction that spends
  an anchor output) fails on the code: a transaction whose only input spends a P2WPKH output,
  standard without a height, is reported non-standard at height 800000 on mainnet (the
  empty network string), since \<open>isNonStandardAnchor\<close> never looks at the output spent. The
  same holds for an input without a \<open>prevout\<close>, as the decoder produces it.\<close>

theorem anchor_rule_without_anchor:
  "prevout_type (example_vin False (Some (example_vout 5000))) = Some ''v0_p2wpkh''
   \<and> isNonStandard example_utils
       (example_tx [example_vin False (Some (example_vout 5000))] [example_vout 1000])
       None None = False
   \<and> isNonStandard example_utils
       (example_tx [example_vin False (Some (example_vout 5000))] [example_vout 1000])
       (Some 800000) (Some []) = True
   \<and> isNonStandard example_utils
       (example_tx [example_vin False None] [example_vout 1000]) (Some 800000) (Some []) = True"
  by code_simp

section \<open>The scenario of the prioritization detector\<close>

lemma increasing_view_block_order:
  "increasing_view (block_order c t9 t4 t8 t3 t5) =
     [\<lparr>stx_txid = t5, rate = 5\<rparr>, \<lparr>stx_txid = t3, rate = 3\<rparr>, \<lparr>stx_txid = t8, rate = 8\<rparr>,
      \<lparr>stx_txid = t4, rate = 4\<rparr>, \<lparr>stx_txid = t9, rate = 9\<rparr>]"
  by (simp add: increasing_view_def block_order_def)

lemma upt_5: "[0..<5] = [0, 1, 2, 3, 4]"
  by (simp add: upt_rec)

lemma lis_of_scenario:
  "longest_increasing_subsequence
     [\<lparr>stx_txid = t5, rate = 5\<rparr>, \<lparr>stx_txid = t3, rate = 3\<rparr>, \<lparr>stx_txid = t8, rate = 8\<rparr>,
      \<lparr>stx_txid = t4, rate = 4\<rparr>, \<lparr>stx_txid = t9, rate = 9\<rparr>]
   = Some [Some \<lparr>stx_txid = t3, rate = 3\<rparr>, Some \<lparr>stx_txid = t4, rate = 4\<rparr>,
           Some \<lparr>stx_txid = t9, rate = 9\<rparr>]"
  by (simp add: longest_increasing_subsequence_def upt_5 binary_search.simps at_index_def
      array_at_def numeral_3_eq_3)

text \<open>Claim C7. For a coinbase entry followed by transactions with the fee rates 9, 4, 8, 3
  and 5 and pairwise different identifiers, the reversed view has the rates 5, 3, 8, 4, 9,
  the longest increasing subsequence computed is the one with the rates 3, 4, 9, and the
  result lists no transaction as prioritized and the transactions with the rates 5 and 8,
  in this order, as deprioritized: the three transactions of the subsequence are in neither
  list and the other two in exactly one. The result is a function of the input.\<close>

theorem lis_scenario:
  assumes "distinct [t9, t4, t8, t3, t5]"
  shows "map rate (increasing_view (block_order c t9 t4 t8 t3 t5)) = [5, 3, 8, 4, 9]
    \<and> longest_increasing_subsequence (increasing_view (block_order c t9 t4 t8 t3 t5))
        = Some [Some \<lparr>stx_txid = t3, rate = 3\<rparr>, Some \<lparr>stx_txid = t4, rate = 4\<rparr>,
                Some \<lparr>stx_txid = t9, rate = 9\<rparr>]
    \<and> identifyPrioritizedTransactions (block_order c t9 t4 t8 t3 t5) = Some ([], [t5, t8])
    \<and> set [t3, t4, t9] \<inter> set ([] @ [t5, t8]) = {}"
proof (intro conjI)
  show "map rate (increasing_view (block_order c t9 t4 t8 t3 t5)) = [5, 3, 8, 4, 9]"
    by (simp add: increasing_view_block_order)
  show "longest_increasing_subsequence (increasing_view (block_order c t9 t4 t8 t3 t5))
        = Some [Some \<lparr>stx_txid = t3, rate = 3\<rparr>, Some \<lparr>stx_txid = t4, rate = 4\<rparr>,
                Some \<lparr>stx_txid = t9, rate = 9\<rparr>]"
    by (simp only: increasing_view_block_order lis_of_scenario)
  show "identifyPrioritizedTransactions (block_order c t9 t4 t8 t3 t5) = Some ([], [t5, t8])"
    using assms
    by (auto simp add: identifyPrioritizedTransactions_def increasing_view_block_order
        lis_of_scenario classify_step_def)
  show "set [t3, t4, t9] \<inter> set ([] @ [t5, t8]) = {}"
    using assms by auto
qed

theorem lis_scenario_witness:
  "identifyPrioritizedTransactions
     (block_order \<lparr>stx_txid = ''coinbase'', rate = 0\<rparr> ''t9'' ''t4'' ''t8'' ''t3'' ''t5'')
   = Some ([], [''t5'', ''t8''])"
proof -
  have "distinct [''t9'', ''t4'', ''t8'', ''t3'', ''t5'']"
    by simp
  from lis_scenario [OF this, where c = "\<lparr>stx_txid = ''coinbase'', rate = 0\<rparr>"]
  show ?thesis
    by (rule conjunct1 [OF conjunct2 [OF conjunct2]])
qed

section \<open>The codec: reading back what the serializer writes\<close>


lemma Number_small: "\<bar>n\<bar> < 2 ^ 53 \<Longrightarrow> Number n = n"
  by (simp add: Number_def)

lemma or_byte_push:
  fixes b r :: int
  assumes "0 \<le> b" "b < 256"
  shows "b OR push_bit 8 r = b + 256 * r"
proof -
  have t: "take_bit 8 b = b"
    using assms by (simp add: take_bit_int_eq_self)
  have "b OR push_bit 8 r = concat_bit 8 b r"
    by (simp add: concat_bit_def t)
  also have "\<dots> = take_bit 8 b + push_bit 8 r"
    by (rule concat_bit_eq)
  finally show ?thesis
    by (simp add: t push_bit_eq_mult)
qed

lemma or_bytes:
  fixes b0 b1 b2 b3 :: int
  assumes "0 \<le> b0" "b0 < 256" "0 \<le> b1" "b1 < 256" "0 \<le> b2" "b2 < 256"
  shows "b0 OR push_bit 8 b1 OR push_bit 16 b2 OR push_bit 24 b3
         = b0 + 256 * b1 + 65536 * b2 + 16777216 * b3"
proof -
  have "push_bit 16 b2 = push_bit 8 (push_bit 8 b2)" "push_bit 24 b3 = push_bit 8 (push_bit 8 (push_bit 8 b3))"
    by (simp_all add: push_bit_eq_mult)
  then have "b0 OR push_bit 8 b1 OR push_bit 16 b2 OR push_bit 24 b3
     = b0 OR push_bit 8 (b1 OR push_bit 8 (b2 OR push_bit 8 b3))"
    by (simp add: push_bit_or)
  also have "\<dots> = b0 + 256 * (b1 + 256 * (b2 + 256 * b3))"
    using assms by (simp add: or_byte_push)
  finally show ?thesis by simp
qed

lemma bytes_sum_32:
  fixes s :: int
  shows "s mod 256 + 256 * (s div 256 mod 256) + 65536 * (s div 65536 mod 256)
         + 16777216 * (s div 16777216 mod 256) = s mod 4294967296"
proof -
  define a b c where "a = s div 256" and "b = a div 256" and "c = b div 256"
  have 1: "s mod 4294967296 = 256 * (a mod 16777216) + s mod 256"
    unfolding a_def using zmod_zmult2_eq [of 16777216 s 256] by simp
  have 2: "a mod 16777216 = 256 * (b mod 65536) + a mod 256"
    unfolding b_def using zmod_zmult2_eq [of 65536 a 256] by simp
  have 3: "b mod 65536 = 256 * (c mod 256) + b mod 256"
    unfolding c_def using zmod_zmult2_eq [of 256 b 256] by simp
  have d: "b = s div 65536" "c = s div 16777216"
    by (simp_all add: a_def b_def c_def zdiv_zmult2_eq)
  have "s mod 4294967296
        = s mod 256 + 256 * (a mod 256) + 65536 * (b mod 256) + 16777216 * (c mod 256)"
    by (simp only: 1 2 3) simp
  then show ?thesis
    by (simp only: d [symmetric] a_def [symmetric])
qed

lemma and_255: "(x::int) AND 255 = x mod 256"
proof -
  have m: "(255::int) = mask 8" by (simp add: mask_eq_exp_minus_1)
  have "x AND 255 = take_bit 8 x"
    by (simp only: m take_bit_eq_mask)
  then show ?thesis by (simp add: take_bit_eq_mod)
qed

lemma hex_digit_hex_char: "d < 16 \<Longrightarrow> hex_digit (hex_char d) = Some d"
  by (auto simp add: hex_digit_def hex_char_def Let_def)


lemma of_char_hex_char: "d < 16 \<Longrightarrow> (of_char (hex_char d) :: nat) = (if d < 10 then 48 + d else 87 + d)"
  by (simp add: hex_char_def)

lemma hex_char_props:
  assumes "d < 16"
  shows "\<not> is_space (hex_char d)" "hex_char d \<noteq> CHR ''-''" "hex_char d \<noteq> CHR ''+''"
    "hex_char d \<noteq> CHR ''x''" "hex_char d \<noteq> CHR ''X''" "is_hex (hex_char d)"
proof -
  have n: "(of_char (hex_char d) :: nat) = (if d < 10 then 48 + d else 87 + d)"
    using assms by (rule of_char_hex_char)
  show "\<not> is_space (hex_char d)"
    using assms by (auto simp add: is_space_def n)
  have ne: "hex_char d \<noteq> c" if "(of_char c :: nat) \<notin> {48..<58} \<union> {97..<103}" for c
    using that n assms by (auto split: if_splits)
  show "hex_char d \<noteq> CHR ''-''" "hex_char d \<noteq> CHR ''+''"
    "hex_char d \<noteq> CHR ''x''" "hex_char d \<noteq> CHR ''X''"
    by (rule ne, simp)+
  show "is_hex (hex_char d)"
    using assms by (simp add: is_hex_def hex_digit_hex_char)
qed

lemma byte_of_hex_hex_of_byte:
  assumes "b < 256"
  shows "byte_of_hex (hex_of_byte b) = b"
proof -
  have d: "b div 16 < 16" "b mod 16 < 16"
    using assms by simp_all
  have "parseInt16 [hex_char (b div 16), hex_char (b mod 16)] = Some (int (16 * (b div 16) + b mod 16))"
    using hex_char_props [OF d(1)] hex_char_props [OF d(2)]
    by (simp add: parseInt16_def hex_digit_hex_char d)
  then show ?thesis
    using assms by (simp add: byte_of_hex_def hex_of_byte_def)
qed

lemma hexStringToUint8Array_Nil [simp]: "hexStringToUint8Array [] = []"
  by (simp add: hexStringToUint8Array_def)

lemma hexStringToUint8Array_Cons2:
  "hexStringToUint8Array (a # b # rest) = byte_of_hex [a, b] # hexStringToUint8Array rest"
proof -
  have "[0..<Suc (length rest div 2)] = 0 # map Suc [0..<length rest div 2]"
    by (simp add: upt_conv_Cons map_Suc_upt del: upt_Suc)
  then show ?thesis
    by (simp add: hexStringToUint8Array_def comp_def del: upt_Suc)
qed

lemma hexStringToUint8Array_hex:
  "list_all (\<lambda>b. b < 256) bs \<Longrightarrow> hexStringToUint8Array (uint8ArrayToHexString bs) = bs"
proof (induction bs)
  case Nil
  then show ?case by (simp add: uint8ArrayToHexString_def)
next
  case (Cons b bs)
  have "uint8ArrayToHexString (b # bs)
          = hex_char (b div 16) # hex_char (b mod 16) # uint8ArrayToHexString bs"
    by (simp add: uint8ArrayToHexString_def hex_of_byte_def)
  then show ?case
    using Cons byte_of_hex_hex_of_byte [of b]
    by (simp add: hexStringToUint8Array_Cons2 hex_of_byte_def)
qed

lemma byte_of_hex_less: "byte_of_hex s < 256"
  by (simp add: byte_of_hex_def nat_less_iff split: option.split)

lemma hexStringToUint8Array_bytes: "list_all (\<lambda>b. b < 256) (hexStringToUint8Array s)"
  by (simp add: hexStringToUint8Array_def list_all_iff byte_of_hex_less)

lemma rehex_bytes [simp]: "hexStringToUint8Array (rehex s) = hexStringToUint8Array s"
  by (simp add: rehex_def hexStringToUint8Array_hex hexStringToUint8Array_bytes)


lemma stands_at_length:
  assumes "stands_at B off xs rest"
  shows "off + int (length xs) \<le> int (length B)"
proof -
  have o: "0 \<le> off" "nat off \<le> length B" and d: "drop (nat off) B = xs @ rest"
    using assms by (simp_all add: stands_at_def nat_le_iff)
  have "length (drop (nat off) B) = length xs + length rest"
    by (simp only: d length_append)
  then have "nat off + length xs \<le> length B"
    using o(2) by simp
  then have "int (nat off) + int (length xs) \<le> int (length B)"
    by linarith
  then show ?thesis
    using o(1) by simp
qed

lemma stands_at_nth:
  assumes "stands_at B off xs rest" "i < length xs"
  shows "byte_at B (off + int i) = Some (xs ! i)"
proof -
  have l: "off + int i < int (length B)"
    using stands_at_length [OF assms(1)] assms(2) by simp
  have n: "nat (off + int i) = nat off + i"
    using assms(1) by (simp add: stands_at_def nat_add_distrib)
  have "B ! (nat off + i) = drop (nat off) B ! i"
    using l n by simp
  then have "B ! (nat off + i) = xs ! i"
    using assms by (simp add: stands_at_def nth_append)
  then show ?thesis
    using assms(1) l n by (simp add: byte_at_def stands_at_def)
qed

lemma stands_at_append:
  assumes "stands_at B off (xs @ ys) rest"
  shows "stands_at B off xs (ys @ rest)" "stands_at B (off + int (length xs)) ys rest"
proof -
  show "stands_at B off xs (ys @ rest)"
    using assms by (simp add: stands_at_def)
  have l: "off + int (length (xs @ ys)) \<le> int (length B)"
    by (rule stands_at_length [OF assms])
  have d: "drop (nat off) B = xs @ ys @ rest" and o: "0 \<le> off"
    using assms by (simp_all add: stands_at_def)
  have "drop (length xs + nat off) B = drop (length xs) (drop (nat off) B)"
    by (simp only: drop_drop)
  also have "\<dots> = ys @ rest"
    by (simp add: d)
  finally have "drop (nat (off + int (length xs))) B = ys @ rest"
    using o by (simp add: nat_add_distrib add.commute)
  then show "stands_at B (off + int (length xs)) ys rest"
    using assms l by (simp add: stands_at_def)
qed

lemma stands_at_Cons:
  assumes "stands_at B off (x # ys) rest"
  shows "stands_at B off [x] (ys @ rest)" "stands_at B (off + 1) ys rest"
  using stands_at_append [of B off "[x]" ys rest] assms by simp_all

lemma Number_offset:
  assumes "0 \<le> off" "off + k \<le> int (length B)" "length B < 2 ^ 53" "0 \<le> k"
  shows "Number (off + k) = off + k"
proof -
  have "int (length B) < 2 ^ 53"
    using assms(3) by (metis of_nat_less_iff of_nat_numeral of_nat_power)
  then show ?thesis
    using assms by (intro Number_small) simp
qed

lemma readInt8_at:
  assumes "stands_at B off [b] rest" "length B < 2 ^ 53"
  shows "readInt8 B off = Inr (Some b, off + 1)"
proof -
  have l: "off + 1 \<le> int (length B)"
    using stands_at_length [OF assms(1)] by simp
  have n: "Number (off + 1) = off + 1"
    using assms l by (intro Number_offset) (simp_all add: stands_at_def)
  have "byte_at B (off + int 0) = Some ([b] ! 0)"
    using assms by (intro stands_at_nth [where rest = rest]) simp_all
  then show ?thesis
    using l by (simp add: readInt8_def n)
qed

lemma int32_bytes:
  assumes "b0 < 256" "b1 < 256" "b2 < 256" "b3 < 256"
  shows "int32 (int b0) (int b1) (int b2) (int b3)
         = signed_take_bit 31 (int b0 + 256 * int b1 + 65536 * int b2 + 16777216 * int b3)"
  using assms by (simp add: int32_def or_bytes)

lemma int32_at_drop:
  assumes "stands_at B off [b0, b1, b2, b3] rest"
    and "b0 < 256" "b1 < 256" "b2 < 256" "b3 < 256"
  shows "int32_at B off (off + 1) (off + 2) (off + 3)
         = signed_take_bit 31 (int b0 + 256 * int b1 + 65536 * int b2 + 16777216 * int b3)"
proof -
  have "byte_at B (off + int 0) = Some ([b0, b1, b2, b3] ! 0)"
       "byte_at B (off + int 1) = Some ([b0, b1, b2, b3] ! 1)"
       "byte_at B (off + int 2) = Some ([b0, b1, b2, b3] ! 2)"
       "byte_at B (off + int 3) = Some ([b0, b1, b2, b3] ! 3)"
    using assms(1) by (intro stands_at_nth [where rest = rest]; simp)+
  then show ?thesis
    using assms(2-) by (simp add: int32_at_def or0_def int32_bytes)
qed

lemma upt_4: "[0..<4] = [0, 1, 2, 3]"
  by (simp add: upt_rec)

lemma upt_8: "[0..<8] = [0, 1, 2, 3, 4, 5, 6, 7]"
  by (simp add: upt_rec)

lemma drop_bit_and_255: "drop_bit n (x::int) AND 255 = x div 2 ^ n mod 256"
  by (simp add: and_255 drop_bit_eq_div)

lemma intToBytes_4:
  "intToBytes v 4 =
     [nat (signed_take_bit 31 v mod 256), nat (signed_take_bit 31 v div 256 mod 256),
      nat (signed_take_bit 31 v div 65536 mod 256),
      nat (signed_take_bit 31 v div 16777216 mod 256)]"
  by (simp add: intToBytes_def upt_4 drop_bit_and_255)

lemma signed_take_bit_mod: "signed_take_bit 31 ((x::int) mod 4294967296) = signed_take_bit 31 x"
proof -
  have "x mod 4294967296 = take_bit 32 x"
    by (simp add: take_bit_eq_mod)
  then show ?thesis
    by (simp add: signed_take_bit_take_bit)
qed

lemma readInt32_intToBytes:
  assumes "stands_at B off (intToBytes v 4) rest" "length B < 2 ^ 53"
  shows "readInt32 B u off
         = Inr (if u then take_bit 32 v else signed_take_bit 31 v, off + 4)"
proof -
  define s where "s = signed_take_bit 31 v"
  have l: "off + 4 \<le> int (length B)"
    using stands_at_length [OF assms(1)] by (simp add: intToBytes_4)
  have n: "Number (off + 1) = off + 1" "Number (off + 2) = off + 2"
    "Number (off + 3) = off + 3" "Number (off + 4) = off + 4"
    using assms l by (intro Number_offset; simp add: stands_at_def)+
  have "int32_at B off (off + 1) (off + 2) (off + 3)
        = signed_take_bit 31 (int (nat (s mod 256)) + 256 * int (nat (s div 256 mod 256))
             + 65536 * int (nat (s div 65536 mod 256))
             + 16777216 * int (nat (s div 16777216 mod 256)))"
    using assms(1) unfolding intToBytes_4 s_def [symmetric]
    by (intro int32_at_drop [where rest = rest]) (simp_all add: nat_less_iff)
  also have "\<dots> = signed_take_bit 31 (s mod 4294967296)"
    by (simp add: bytes_sum_32)
  also have "\<dots> = s"
    by (simp add: signed_take_bit_mod s_def)
  finally have v: "int32_at B off (off + 1) (off + 2) (off + 3) = signed_take_bit 31 v"
    by (simp add: s_def)
  have "take_bit 32 (signed_take_bit 31 v) = take_bit 32 v"
    by (simp add: take_bit_signed_take_bit)
  then show ?thesis
    using l by (simp add: readInt32_def n v Let_def)
qed

lemma readInt32_unsigned:
  assumes "stands_at B off (intToBytes v 4) rest" "length B < 2 ^ 53"
    and "0 \<le> v" "v < 2 ^ 32"
  shows "readInt32 B True off = Inr (v, off + 4)"
  using readInt32_intToBytes [OF assms(1,2), of True] assms(3,4)
  by (simp add: take_bit_int_eq_self)

lemma readInt32_signed:
  assumes "stands_at B off (intToBytes v 4) rest" "length B < 2 ^ 53"
    and "- (2 ^ 31) \<le> v" "v < 2 ^ 31"
  shows "readInt32 B False off = Inr (v, off + 4)"
  using readInt32_intToBytes [OF assms(1,2), of False] assms(3,4)
  by (simp add: signed_take_bit_int_eq_self)


lemma or_push:
  fixes t h :: int
  assumes "0 \<le> t" "t < 2 ^ n"
  shows "push_bit n h OR t = 2 ^ n * h + t"
proof -
  have t: "take_bit n t = t"
    using assms by (simp add: take_bit_int_eq_self)
  have "push_bit n h OR t = concat_bit n t h"
    by (simp add: concat_bit_def t or.commute)
  also have "\<dots> = take_bit n t + push_bit n h"
    by (rule concat_bit_eq)
  finally show ?thesis
    by (simp add: t push_bit_eq_mult)
qed

lemma and_mask_32: "(x::int) AND 4294967295 = x mod 4294967296"
proof -
  have m: "(4294967295::int) = mask 32" by (simp add: mask_eq_exp_minus_1)
  have "x AND 4294967295 = take_bit 32 x"
    by (simp only: m take_bit_eq_mask)
  then show ?thesis by (simp add: take_bit_eq_mod)
qed

lemma bigIntToBytes_8:
  "bigIntToBytes v 8 =
     [nat (v mod 256), nat (v div 256 mod 256), nat (v div 65536 mod 256),
      nat (v div 16777216 mod 256)]
     @ [nat (v div 4294967296 mod 256), nat (v div 4294967296 div 256 mod 256),
        nat (v div 4294967296 div 65536 mod 256), nat (v div 4294967296 div 16777216 mod 256)]"
proof -
  have d: "v div 4294967296 div 256 = v div 1099511627776"
    "v div 4294967296 div 65536 = v div 281474976710656"
    "v div 4294967296 div 16777216 = v div 72057594037927936"
    using zdiv_zmult2_eq [of 256 v 4294967296] zdiv_zmult2_eq [of 65536 v 4294967296]
      zdiv_zmult2_eq [of 16777216 v 4294967296]
    by simp_all
  show ?thesis
    unfolding d by (simp add: bigIntToBytes_def upt_8 drop_bit_and_255)
qed

lemma readInt64_at:
  assumes "stands_at B off (bigIntToBytes v 8) rest" "length B < 2 ^ 53"
    and "0 \<le> v" "v < 2 ^ 63"
  shows "readInt64 B off = Inr (v, off + 8)"
proof -
  define w where "w = v div 4294967296"
  have l: "off + 8 \<le> int (length B)"
    using stands_at_length [OF assms(1)] by (simp add: bigIntToBytes_8)
  have o: "0 \<le> off"
    using assms(1) by (simp add: stands_at_def)
  have n: "Number (off + 1) = off + 1" "Number (off + 2) = off + 2"
    "Number (off + 3) = off + 3" "Number (off + 4) = off + 4" "Number (off + 5) = off + 5"
    "Number (off + 6) = off + 6" "Number (off + 7) = off + 7" "Number (off + 8) = off + 8"
    using assms(2) l o by (intro Number_offset; simp)+
  have s: "stands_at B off [nat (v mod 256), nat (v div 256 mod 256), nat (v div 65536 mod 256),
      nat (v div 16777216 mod 256)]
     ([nat (w mod 256), nat (w div 256 mod 256),
        nat (w div 65536 mod 256), nat (w div 16777216 mod 256)] @ rest)"
    "stands_at B (off + 4) [nat (w mod 256), nat (w div 256 mod 256),
        nat (w div 65536 mod 256), nat (w div 16777216 mod 256)] rest"
    using stands_at_append [OF assms(1) [unfolded bigIntToBytes_8]]
    by (simp_all add: w_def)
  have "int32_at B off (off + 1) (off + 2) (off + 3)
        = signed_take_bit 31 (int (nat (v mod 256)) + 256 * int (nat (v div 256 mod 256))
             + 65536 * int (nat (v div 65536 mod 256))
             + 16777216 * int (nat (v div 16777216 mod 256)))"
    by (rule int32_at_drop [OF s(1)]) (simp_all add: nat_less_iff)
  also have "\<dots> = signed_take_bit 31 (v mod 4294967296)"
    by (simp add: bytes_sum_32)
  finally have low: "int32_at B off (off + 1) (off + 2) (off + 3)
      = signed_take_bit 31 (v mod 4294967296)" .
  have "int32_at B (off + 4) (off + 4 + 1) (off + 4 + 2) (off + 4 + 3)
        = signed_take_bit 31 (int (nat (w mod 256)) + 256 * int (nat (w div 256 mod 256))
             + 65536 * int (nat (w div 65536 mod 256))
             + 16777216 * int (nat (w div 16777216 mod 256)))"
    by (rule int32_at_drop [OF s(2)]) (simp_all add: nat_less_iff)
  also have "\<dots> = signed_take_bit 31 (w mod 4294967296)"
    by (simp add: bytes_sum_32)
  also have "\<dots> = w"
  proof -
    have "0 \<le> w" "w < 2147483648"
      using assms(3,4) by (simp_all add: w_def)
    then show ?thesis
      by (simp add: signed_take_bit_int_eq_self)
  qed
  finally have high: "int32_at B (off + 4) (off + 5) (off + 6) (off + 7) = w"
    by (simp add: add.assoc)
  have "signed_take_bit 31 (v mod 4294967296) AND 4294967295 = v mod 4294967296"
  proof -
    have "signed_take_bit 31 (v mod 4294967296) mod 4294967296
          = take_bit 32 (signed_take_bit 31 (v mod 4294967296))"
      by (simp add: take_bit_eq_mod)
    also have "\<dots> = take_bit 32 (v mod 4294967296)"
      by (simp add: take_bit_signed_take_bit)
    also have "\<dots> = v mod 4294967296"
      by (simp add: take_bit_eq_mod)
    finally show ?thesis
      by (simp add: and_mask_32)
  qed
  moreover have "push_bit 32 w OR (v mod 4294967296) = 2 ^ 32 * w + v mod 4294967296"
    by (rule or_push) simp_all
  moreover have "2 ^ 32 * w + v mod 4294967296 = v"
    by (simp add: w_def)
  ultimately show ?thesis
    using l by (simp add: readInt64_def n low high Let_def)
qed

lemma readInt16_at:
  assumes "stands_at B off [b0, b1] rest" "length B < 2 ^ 53" "b0 < 256" "b1 < 256"
  shows "readInt16 B off = Inr (int b0 + 256 * int b1, off + 2)"
proof -
  have l: "off + 2 \<le> int (length B)"
    using stands_at_length [OF assms(1)] by simp
  have o: "0 \<le> off"
    using assms(1) by (simp add: stands_at_def)
  have n: "Number (off + 1) = off + 1" "Number (off + 2) = off + 2"
    using assms(2) l o by (intro Number_offset; simp)+
  have b: "byte_at B (off + int 0) = Some ([b0, b1] ! 0)"
       "byte_at B (off + int 1) = Some ([b0, b1] ! 1)"
    using assms(1) by (intro stands_at_nth [where rest = rest]; simp)+
  have "int32 (int b0) (int b1) (int 0) (int 0)
          = signed_take_bit 31 (int b0 + 256 * int b1 + 65536 * int 0 + 16777216 * int 0)"
    using assms(3,4) by (intro int32_bytes) simp_all
  also have "\<dots> = int b0 + 256 * int b1"
    using assms(3,4) by (simp add: signed_take_bit_int_eq_self)
  finally show ?thesis
    using l b by (simp add: readInt16_def n or0_def)
qed

lemma varIntToBytes_small: "n < 253 \<Longrightarrow> varIntToBytes n = [n]"
  by (simp add: varIntToBytes_def)

lemma varIntToBytes_medium:
  "253 \<le> n \<Longrightarrow> n \<le> 65535 \<Longrightarrow> varIntToBytes n = [253, n mod 256, n div 256]"
proof -
  assume a: "253 \<le> n" "n \<le> 65535"
  have s: "signed_take_bit 31 (int n) = int n"
    using a by (simp add: signed_take_bit_int_eq_self)
  have "nat (int n mod 256) = n mod 256" "nat (int n div 256 mod 256) = n div 256"
    using a by (simp_all add: nat_mod_distrib nat_div_distrib flip: zmod_int zdiv_int)
  then show ?thesis
    using a by (simp add: varIntToBytes_def s and_255 drop_bit_eq_div)
qed

lemma varIntToBytes_large:
  "65535 < n \<Longrightarrow> n \<le> 4294967295 \<Longrightarrow> varIntToBytes n = 254 # intToBytes (int n) 4"
  by (simp add: varIntToBytes_def)

lemma readVarInt_at:
  assumes "stands_at B off (varIntToBytes n) rest" "length B < 2 ^ 53" "n < 2 ^ 32"
  shows "readVarInt B off = Inr (int n, off + int (length (varIntToBytes n)))"
proof -
  consider "n < 253" | "253 \<le> n" "n \<le> 65535" | "65535 < n"
    by linarith
  then show ?thesis
  proof cases
    case 1
    then show ?thesis
      using readInt8_at [of B off n rest] assms
      by (simp add: readVarInt_def varIntToBytes_small)
  next
    case 2
    have v: "varIntToBytes n = [253, n mod 256, n div 256]"
      using 2 by (rule varIntToBytes_medium)
    have r8: "readInt8 B off = Inr (Some 253, off + 1)"
      using stands_at_Cons(1) [OF assms(1) [unfolded v]] assms(2) by (rule readInt8_at)
    have "readInt16 B (off + 1) = Inr (int (n mod 256) + 256 * int (n div 256), off + 1 + 2)"
      using stands_at_Cons(2) [OF assms(1) [unfolded v]] assms(2) 2
      by (intro readInt16_at) simp_all
    moreover have "int (n mod 256) + 256 * int (n div 256) = int n"
      by (simp add: zmod_int zdiv_int)
    ultimately show ?thesis
      by (simp add: readVarInt_def r8 v)
  next
    case 3
    have v: "varIntToBytes n = 254 # intToBytes (int n) 4"
      using 3 assms(3) by (intro varIntToBytes_large) simp_all
    have r8: "readInt8 B off = Inr (Some 254, off + 1)"
      using stands_at_Cons(1) [OF assms(1) [unfolded v]] assms(2) by (rule readInt8_at)
    have "readInt32 B True (off + 1) = Inr (int n, off + 1 + 4)"
      using stands_at_Cons(2) [OF assms(1) [unfolded v]] assms(2,3)
      by (intro readInt32_unsigned) simp_all
    then show ?thesis
      by (simp add: readVarInt_def r8 v intToBytes_4)
  qed
qed

lemma readSlice_at:
  assumes "stands_at B off xs rest" "length B < 2 ^ 53"
  shows "readSlice B (int (length xs)) off = Inr (xs, off + int (length xs))"
proof -
  have l: "off + int (length xs) \<le> int (length B)"
    by (rule stands_at_length [OF assms(1)])
  have o: "0 \<le> off" and d: "drop (nat off) B = xs @ rest"
    using assms(1) by (simp_all add: stands_at_def)
  have b: "int (length B) < 2 ^ 53"
    using assms(2) by (metis of_nat_less_iff of_nat_numeral of_nat_power)
  have n1: "Number (int (length xs)) = int (length xs)"
    using l o b by (intro Number_small) simp
  have n2: "Number (off + int (length xs)) = off + int (length xs)"
    using l o assms(2) by (intro Number_offset) simp_all
  have "typed_slice B off (off + int (length xs)) = take (length xs) (drop (nat off) B)"
    using l o by (simp add: typed_slice_def relative_index_def nat_add_distrib)
  then show ?thesis
    using l by (simp add: readSlice_def Let_def n1 n2 d)
qed

lemma readVarSlice_at:
  assumes "stands_at B off (varIntToBytes (length xs) @ xs) rest" "length B < 2 ^ 53"
    and "length xs < 2 ^ 32"
  shows "readVarSlice B off
         = Inr (xs, off + int (length (varIntToBytes (length xs) @ xs)))"
proof -
  have 1: "readVarInt B off
           = Inr (int (length xs), off + int (length (varIntToBytes (length xs))))"
    using stands_at_append(1) [OF assms(1)] assms(2,3) by (rule readVarInt_at)
  have 2: "readSlice B (int (length xs)) (off + int (length (varIntToBytes (length xs))))
           = Inr (xs, off + int (length (varIntToBytes (length xs))) + int (length xs))"
    using stands_at_append(2) [OF assms(1)] assms(2) by (rule readSlice_at)
  show ?thesis
    by (simp add: readVarSlice_def 1 2 add.assoc)
qed


lemma read_items_at:
  assumes "stands_at B off (concat (map (\<lambda>i. varIntToBytes (length i) @ i) items)) rest"
    and "length B < 2 ^ 53" "list_all (\<lambda>i. length i < 2 ^ 32) items"
  shows "read_items B (length items) off
         = Inr (items, off + int (length (concat (map (\<lambda>i. varIntToBytes (length i) @ i) items))))"
  using assms
proof (induction items arbitrary: off)
  case Nil
  then show ?case by simp
next
  case (Cons i items)
  have s: "stands_at B off (varIntToBytes (length i) @ i)
             (concat (map (\<lambda>i. varIntToBytes (length i) @ i) items) @ rest)"
    "stands_at B (off + int (length (varIntToBytes (length i) @ i)))
       (concat (map (\<lambda>i. varIntToBytes (length i) @ i) items)) rest"
    using stands_at_append [of B off "varIntToBytes (length i) @ i"
        "concat (map (\<lambda>i. varIntToBytes (length i) @ i) items)" rest] Cons.prems(1)
    by simp_all
  define o1 where "o1 = off + int (length (varIntToBytes (length i) @ i))"
  have 1: "readVarSlice B off = Inr (i, o1)"
    unfolding o1_def using s(1) Cons.prems(2,3) by (intro readVarSlice_at) simp_all
  have 2: "read_items B (length items) o1
      = Inr (items, o1 + int (length (concat (map (\<lambda>i. varIntToBytes (length i) @ i) items))))"
    unfolding o1_def using s(2) Cons.prems(2,3) by (intro Cons.IH) simp_all
  have e: "off + int (length (concat (map (\<lambda>i. varIntToBytes (length i) @ i) (i # items))))
           = o1 + int (length (concat (map (\<lambda>i. varIntToBytes (length i) @ i) items)))"
    by (simp add: o1_def)
  show ?case
    unfolding e by (simp add: 1 2)
qed

lemma readVector_at:
  assumes "stands_at B off (varIntToBytes (length items)
             @ concat (map (\<lambda>i. varIntToBytes (length i) @ i) items)) rest"
    and "length B < 2 ^ 53" "length items < 2 ^ 32" "list_all (\<lambda>i. length i < 2 ^ 32) items"
  shows "readVector B off
         = Inr (items, off + int (length (varIntToBytes (length items)
             @ concat (map (\<lambda>i. varIntToBytes (length i) @ i) items))))"
proof -
  define o1 where "o1 = off + int (length (varIntToBytes (length items)))"
  have 1: "readVarInt B off = Inr (int (length items), o1)"
    unfolding o1_def using stands_at_append(1) [OF assms(1)] assms(2,3) by (rule readVarInt_at)
  have 2: "read_items B (length items) o1
      = Inr (items, o1 + int (length (concat (map (\<lambda>i. varIntToBytes (length i) @ i) items))))"
    unfolding o1_def using stands_at_append(2) [OF assms(1)] assms(2,4) by (rule read_items_at)
  have e: "off + int (length (varIntToBytes (length items)
             @ concat (map (\<lambda>i. varIntToBytes (length i) @ i) items)))
           = o1 + int (length (concat (map (\<lambda>i. varIntToBytes (length i) @ i) items)))"
    by (simp add: o1_def)
  show ?thesis
    unfolding e by (simp add: readVector_def 1 2)
qed

lemma witness_stack_bytes_items:
  "witness_stack_bytes ws
   = varIntToBytes (length (map hexStringToUint8Array ws))
     @ concat (map (\<lambda>i. varIntToBytes (length i) @ i) (map hexStringToUint8Array ws))"
proof -
  have "witness_item_bytes
        = (\<lambda>x. varIntToBytes (length (hexStringToUint8Array x)) @ hexStringToUint8Array x)"
    by (rule ext) (simp add: witness_item_bytes_def)
  then show ?thesis
    by (simp add: witness_stack_bytes_def comp_def)
qed

lemma read_witnesses_at:
  assumes "stands_at B off (concat (map witness_stack_bytes stacks)) rest"
    and "length B < 2 ^ 53" "list_all fits_stack stacks"
  shows "read_witnesses B (length stacks) off
         = Inr (map (map rehex) stacks,
                off + int (length (concat (map witness_stack_bytes stacks))))"
  using assms
proof (induction stacks arbitrary: off)
  case Nil
  then show ?case by simp
next
  case (Cons ws stacks)
  have s: "stands_at B off (witness_stack_bytes ws)
             (concat (map witness_stack_bytes stacks) @ rest)"
    "stands_at B (off + int (length (witness_stack_bytes ws)))
       (concat (map witness_stack_bytes stacks)) rest"
    using stands_at_append [of B off "witness_stack_bytes ws"
        "concat (map witness_stack_bytes stacks)" rest] Cons.prems(1)
    by simp_all
  have f: "length (map hexStringToUint8Array ws) < 2 ^ 32"
    "list_all (\<lambda>i. length i < 2 ^ 32) (map hexStringToUint8Array ws)"
    using Cons.prems(3) by (simp_all add: fits_stack_def fits_witness_item_def list_all_iff)
  define o1 where "o1 = off + int (length (witness_stack_bytes ws))"
  have 1: "readVector B off = Inr (map hexStringToUint8Array ws, o1)"
    unfolding o1_def
    using readVector_at [OF s(1) [unfolded witness_stack_bytes_items] Cons.prems(2) f]
    by (simp only: witness_stack_bytes_items)
  have 2: "read_witnesses B (length stacks) o1
      = Inr (map (map rehex) stacks,
             o1 + int (length (concat (map witness_stack_bytes stacks))))"
    unfolding o1_def using s(2) Cons.prems(2,3) by (intro Cons.IH) simp_all
  have e: "off + int (length (concat (map witness_stack_bytes (ws # stacks))))
           = o1 + int (length (concat (map witness_stack_bytes stacks)))"
    by (simp add: o1_def)
  have r: "rehex = (\<lambda>s. uint8ArrayToHexString (hexStringToUint8Array s))"
    by (rule ext) (simp add: rehex_def)
  show ?case
    unfolding e by (simp add: 1 2 r comp_def)
qed

lemma length_intToBytes [simp]: "length (intToBytes v n) = n"
  by (simp add: intToBytes_def)

lemma length_bigIntToBytes [simp]: "length (bigIntToBytes v n) = n"
  by (simp add: bigIntToBytes_def)

lemma read_vin_at:
  assumes "stands_at B off (serialize_input v) rest" "length B < 2 ^ 53" "fits_vin v"
  shows "read_vin B off = Inr (decoded_vin False v, off + int (length (serialize_input v)))"
proof -
  define h where "h = rev (hexStringToUint8Array (vin_txid v))"
  define ss where "ss = hexStringToUint8Array (scriptsig v)"
  have f: "length h = 32" "0 \<le> vin_vout v" "vin_vout v < 2 ^ 32" "length ss < 2 ^ 32"
    "0 \<le> sequence v" "sequence v < 2 ^ 32"
    using assms(3) by (simp_all add: fits_vin_def h_def ss_def)
  have e: "serialize_input v = h @ intToBytes (vin_vout v) 4
             @ (varIntToBytes (length ss) @ ss) @ intToBytes (sequence v) 4"
    by (simp add: serialize_input_def h_def ss_def)
  note s1 = stands_at_append [OF assms(1) [unfolded e]]
  note s2 = stands_at_append [OF s1(2)]
  note s3 = stands_at_append [OF s2(2)]
  define o1 o2 o3 o4 where "o1 = off + 32" and "o2 = o1 + 4"
    and "o3 = o2 + int (length (varIntToBytes (length ss) @ ss))" and "o4 = o3 + 4"
  have 1: "readSlice B 32 off = Inr (h, o1)"
    unfolding o1_def using readSlice_at [OF s1(1) assms(2)] f(1) by simp
  have 2: "readInt32 B True o1 = Inr (vin_vout v, o2)"
    unfolding o1_def o2_def using readInt32_unsigned [OF s2(1) assms(2) f(2,3)] f(1) by simp
  have 3: "readVarSlice B o2 = Inr (ss, o3)"
    unfolding o1_def o2_def o3_def using readVarSlice_at [OF s3(1) assms(2) f(4)] f(1) by simp
  have 4: "readInt32 B True o3 = Inr (sequence v, o4)"
    unfolding o1_def o2_def o3_def o4_def
    using readInt32_unsigned [OF s3(2) assms(2) f(5,6)] f(1) by simp
  have l: "off + int (length (serialize_input v)) = o4"
    using f(1) by (simp add: e o1_def o2_def o3_def o4_def)
  have r: "rev h = hexStringToUint8Array (vin_txid v)"
    by (simp add: h_def)
  show ?thesis
    unfolding l by (simp add: read_vin_def 1 2 3 4 r decoded_vin_def rehex_def ss_def)
qed

lemma read_vins_at:
  assumes "stands_at B off (concat (map serialize_input vs)) rest"
    and "length B < 2 ^ 53" "list_all fits_vin vs"
  shows "read_vins B (length vs) off
         = Inr (map (decoded_vin False) vs,
                off + int (length (concat (map serialize_input vs))))"
  using assms
proof (induction vs arbitrary: off)
  case Nil
  then show ?case by simp
next
  case (Cons v vs)
  have s: "stands_at B off (serialize_input v) (concat (map serialize_input vs) @ rest)"
    "stands_at B (off + int (length (serialize_input v)))
       (concat (map serialize_input vs)) rest"
    using stands_at_append [of B off "serialize_input v"
        "concat (map serialize_input vs)" rest] Cons.prems(1)
    by simp_all
  define o1 where "o1 = off + int (length (serialize_input v))"
  have 1: "read_vin B off = Inr (decoded_vin False v, o1)"
    unfolding o1_def using s(1) Cons.prems(2,3) by (intro read_vin_at) simp_all
  have 2: "read_vins B (length vs) o1
      = Inr (map (decoded_vin False) vs, o1 + int (length (concat (map serialize_input vs))))"
    unfolding o1_def using s(2) Cons.prems(2,3) by (intro Cons.IH) simp_all
  have e: "off + int (length (concat (map serialize_input (v # vs))))
           = o1 + int (length (concat (map serialize_input vs)))"
    by (simp add: o1_def)
  show ?case
    unfolding e by (simp add: 1 2)
qed

lemma read_vout_at:
  assumes "stands_at B off (serialize_output v) rest" "length B < 2 ^ 53" "fits_vout v"
  shows "read_vout env network B off
         = Inr (decoded_vout env network v, off + int (length (serialize_output v)))"
proof -
  define ss where "ss = hexStringToUint8Array (scriptpubkey v)"
  have f: "0 \<le> vout_value v" "vout_value v < 2 ^ 53" "length ss < 2 ^ 32"
    using assms(3) by (simp_all add: fits_vout_def ss_def)
  have e: "serialize_output v = bigIntToBytes (vout_value v) 8
             @ (varIntToBytes (length ss) @ ss)"
    by (simp add: serialize_output_def ss_def)
  note s1 = stands_at_append [OF assms(1) [unfolded e]]
  define o1 o2 where "o1 = off + 8"
    and "o2 = o1 + int (length (varIntToBytes (length ss) @ ss))"
  have 1: "readInt64 B off = Inr (vout_value v, o1)"
    unfolding o1_def using f(1,2) by (intro readInt64_at [OF s1(1) assms(2)]) simp_all
  have 2: "readVarSlice B o1 = Inr (ss, o2)"
    unfolding o1_def o2_def using readVarSlice_at [OF s1(2) assms(2) f(3)] by simp
  have n: "Number (vout_value v) = vout_value v"
    using f(1,2) by (intro Number_small) simp
  have l: "off + int (length (serialize_output v)) = o2"
    by (simp add: e o1_def o2_def)
  show ?thesis
    unfolding l by (simp add: read_vout_def 1 2 decoded_vout_def rehex_def ss_def n)
qed

lemma read_vouts_at:
  assumes "stands_at B off (concat (map serialize_output vs)) rest"
    and "length B < 2 ^ 53" "list_all fits_vout vs"
  shows "read_vouts env network B (length vs) off
         = Inr (map (decoded_vout env network) vs,
                off + int (length (concat (map serialize_output vs))))"
  using assms
proof (induction vs arbitrary: off)
  case Nil
  then show ?case by simp
next
  case (Cons v vs)
  have s: "stands_at B off (serialize_output v) (concat (map serialize_output vs) @ rest)"
    "stands_at B (off + int (length (serialize_output v)))
       (concat (map serialize_output vs)) rest"
    using stands_at_append [of B off "serialize_output v"
        "concat (map serialize_output vs)" rest] Cons.prems(1)
    by simp_all
  define o1 where "o1 = off + int (length (serialize_output v))"
  have 1: "read_vout env network B off = Inr (decoded_vout env network v, o1)"
    unfolding o1_def using s(1) Cons.prems(2,3) by (intro read_vout_at) simp_all
  have 2: "read_vouts env network B (length vs) o1
      = Inr (map (decoded_vout env network) vs,
             o1 + int (length (concat (map serialize_output vs))))"
    unfolding o1_def using s(2) Cons.prems(2,3) by (intro Cons.IH) simp_all
  have e: "off + int (length (concat (map serialize_output (v # vs))))
           = o1 + int (length (concat (map serialize_output vs)))"
    by (simp add: o1_def)
  show ?case
    unfolding e by (simp add: 1 2)
qed


lemma serialize_input_decoded [simp]: "serialize_input (decoded_vin w v) = serialize_input v"
  by (simp add: serialize_input_def decoded_vin_def)

lemma serialize_output_decoded [simp]:
  "serialize_output (decoded_vout env n v) = serialize_output v"
  by (simp add: serialize_output_def decoded_vout_def)

lemma serializeTransaction_decoded:
  assumes "version r = version tx" "locktime r = locktime tx"
    and "vin r = map (decoded_vin w) (vin tx)" "vout r = map (decoded_vout env n) (vout tx)"
  shows "serializeTransaction r = serializeTransaction tx"
  using assms by (simp add: serializeTransaction_def comp_def)

lemma set_witnesses:
  "map2 (\<lambda>input stack. input\<lparr>witness := Some stack\<rparr>) (map (decoded_vin False) vs)
     (map (map rehex) (map witness_of vs))
   = map (decoded_vin True) vs"
  by (induction vs) (simp_all add: decoded_vin_def)

lemma set_witnesses_comp:
  "map2 (\<lambda>input stack. input\<lparr>witness := Some stack\<rparr>) (map (decoded_vin False) vs)
     (map (map rehex \<circ> witness_of) vs)
   = map (decoded_vin True) vs"
  by (induction vs) (simp_all add: decoded_vin_def)

lemma fits_stacks: "list_all fits_vin vs \<Longrightarrow> list_all fits_stack (map witness_of vs)"
  by (induction vs) (simp_all add: fits_vin_def fits_stack_def)

lemma read_transaction_witness:
  assumes "fits tx"
  shows "read_transaction env (serialize_with_witness tx) network
         = Inr (version tx, map (decoded_vin True) (vin tx),
                map (decoded_vout env network) (vout tx), locktime tx, True,
                int (length (witness_bytes tx)) + 2)"
proof -
  define B where "B = serialize_with_witness tx"
  define V NI INS NO OUTS W L
    where "V = intToBytes (version tx) 4"
      and "NI = varIntToBytes (length (vin tx))"
      and "INS = concat (map serialize_input (vin tx))"
      and "NO = varIntToBytes (length (vout tx))"
      and "OUTS = concat (map serialize_output (vout tx))"
      and "W = concat (map witness_stack_bytes (map witness_of (vin tx)))"
      and "L = intToBytes (locktime tx) 4"
  have w: "witness_bytes tx = W"
    by (simp add: witness_bytes_def W_def comp_def)
  have B: "B = V @ [0] @ [1] @ NI @ INS @ NO @ OUTS @ W @ L"
    by (simp add: B_def serialize_with_witness_def inputs_and_outputs_def w V_def NI_def
        INS_def NO_def OUTS_def L_def)
  have f: "- (2 ^ 31) \<le> version tx" "version tx < 2 ^ 31" "0 \<le> locktime tx"
    "locktime tx < 2 ^ 32" "length (vin tx) < 2 ^ 32" "list_all fits_vin (vin tx)"
    "length (vout tx) < 2 ^ 32" "list_all fits_vout (vout tx)" "length B < 2 ^ 53"
    using assms by (simp_all add: fits_def B_def)
  have lV: "length V = 4" and lL: "length L = 4"
    by (simp_all add: V_def L_def)
  have s0: "stands_at B 0 (V @ [0] @ [1] @ NI @ INS @ NO @ OUTS @ W @ L) []"
    unfolding stands_at_def using B by simp
  note a = stands_at_append [OF s0]
  note b = stands_at_append [OF a(2)]
  note c = stands_at_append [OF b(2)]
  note d = stands_at_append [OF c(2)]
  note e = stands_at_append [OF d(2)]
  note g = stands_at_append [OF e(2)]
  note h = stands_at_append [OF g(2)]
  note i = stands_at_append [OF h(2)]
  define o1 o2 o3 o4 o5 where "o1 = 6 + int (length NI)" and "o2 = o1 + int (length INS)"
    and "o3 = o2 + int (length NO)" and "o4 = o3 + int (length OUTS)"
    and "o5 = o4 + int (length W)"
  have 1: "readInt32 B False 0 = Inr (version tx, 4)"
    using readInt32_signed [OF a(1) [unfolded V_def] f(9) f(1,2)] by simp
  have 2: "readInt8 B 4 = Inr (Some 0, 5)"
    using readInt8_at [OF b(1) f(9)] by (simp add: lV)
  have 3: "readInt8 B 5 = Inr (Some 1, 6)"
    using readInt8_at [OF c(1) f(9)] by (simp add: lV)
  have 4: "readVarInt B 6 = Inr (int (length (vin tx)), o1)"
    using readVarInt_at [OF d(1) [unfolded NI_def] f(9) f(5)] by (simp add: lV o1_def NI_def)
  have 5: "read_vins B (length (vin tx)) o1 = Inr (map (decoded_vin False) (vin tx), o2)"
    using read_vins_at [OF e(1) [unfolded INS_def] f(9) f(6)]
    by (simp add: lV o1_def o2_def INS_def)
  have 6: "readVarInt B o2 = Inr (int (length (vout tx)), o3)"
    using readVarInt_at [OF g(1) [unfolded NO_def] f(9) f(7)]
    by (simp add: lV o1_def o2_def o3_def NO_def)
  have 7: "read_vouts env network B (length (vout tx)) o3
           = Inr (map (decoded_vout env network) (vout tx), o4)"
    using read_vouts_at [OF h(1) [unfolded OUTS_def] f(9) f(8), of env network]
    by (simp add: lV o1_def o2_def o3_def o4_def OUTS_def)
  have 8: "read_witnesses B (length (vin tx)) o4
           = Inr (map (map rehex) (map witness_of (vin tx)), o5)"
    using read_witnesses_at [OF i(1) [unfolded W_def] f(9) fits_stacks [OF f(6)]]
    by (simp add: lV o1_def o2_def o3_def o4_def o5_def W_def)
  have 9: "readInt32 B True o5 = Inr (locktime tx, o5 + 4)"
    using readInt32_unsigned [OF i(2) [unfolded L_def] f(9) f(3,4)]
    by (simp add: lV o1_def o2_def o3_def o4_def o5_def)
  have 10: "o5 + 4 = int (length B)"
    by (simp add: B lV lL o1_def o2_def o3_def o4_def o5_def)
  have "int (length W) + 2 \<le> int (length B)"
    by (simp add: B)
  then have 11: "Number (Number (o5 - o4) + 2) = int (length W) + 2"
    using f(9) by (simp add: o5_def Number_small)
  have "read_transaction env B network
        = Inr (version tx, map (decoded_vin True) (vin tx),
               map (decoded_vout env network) (vout tx), locktime tx, True,
               int (length W) + 2)"
    unfolding read_transaction_def
    by (simp add: 1 2 3 4 5 6 7 8 9 10 11 Let_def set_witnesses set_witnesses_comp)
  then show ?thesis
    by (simp add: B_def w)
qed

lemma varIntToBytes_hd:
  assumes "0 < n" "n < 2 ^ 32"
  shows "\<exists>b bs. varIntToBytes n = b # bs \<and> b \<noteq> 0"
  using assms by (simp add: varIntToBytes_def)

lemma length_serialize_input: "0 < length (serialize_input v)"
  by (simp add: serialize_input_def)

lemma length_serialize_strip:
  "length (serializeTransaction tx) + 2 + length (witness_bytes tx)
   = length (serialize_with_witness tx)"
  by (simp add: serializeTransaction_def serialize_with_witness_def inputs_and_outputs_def)

lemma read_transaction_legacy:
  assumes "fits tx" "vin tx \<noteq> []"
  shows "read_transaction env (serializeTransaction tx) network
         = Inr (version tx, map (decoded_vin False) (vin tx),
                map (decoded_vout env network) (vout tx), locktime tx, False, 0)"
proof -
  define B where "B = serializeTransaction tx"
  define V NI INS NO OUTS L
    where "V = intToBytes (version tx) 4"
      and "NI = varIntToBytes (length (vin tx))"
      and "INS = concat (map serialize_input (vin tx))"
      and "NO = varIntToBytes (length (vout tx))"
      and "OUTS = concat (map serialize_output (vout tx))"
      and "L = intToBytes (locktime tx) 4"
  have B: "B = V @ NI @ INS @ NO @ OUTS @ L"
    by (simp add: B_def serializeTransaction_def V_def NI_def INS_def NO_def OUTS_def L_def)
  have "length B \<le> length (serialize_with_witness tx)"
    using length_serialize_strip [of tx] by (simp add: B_def)
  then have f: "- (2 ^ 31) \<le> version tx" "version tx < 2 ^ 31" "0 \<le> locktime tx"
    "locktime tx < 2 ^ 32" "length (vin tx) < 2 ^ 32" "list_all fits_vin (vin tx)"
    "length (vout tx) < 2 ^ 32" "list_all fits_vout (vout tx)" "length B < 2 ^ 53"
    using assms(1) by (simp_all add: fits_def)
  have lV: "length V = 4" and lL: "length L = 4"
    by (simp_all add: V_def L_def)
  obtain b0 bs where n: "NI = b0 # bs" "b0 \<noteq> 0"
    using varIntToBytes_hd [of "length (vin tx)"] assms(2) f(5) by (auto simp add: NI_def)
  obtain v vs where vs: "vin tx = v # vs"
    using assms(2) by (cases "vin tx") simp_all
  have lI: "0 < length INS"
    using length_serialize_input [of v] by (simp add: INS_def vs)
  have s0: "stands_at B 0 (V @ NI @ INS @ NO @ OUTS @ L) []"
    unfolding stands_at_def using B by simp
  note a = stands_at_append [OF s0]
  note d = stands_at_append [OF a(2)]
  note e = stands_at_append [OF d(2)]
  note g = stands_at_append [OF e(2)]
  note h = stands_at_append [OF g(2)]
  define o1 o2 o3 o4 where "o1 = 4 + int (length NI)" and "o2 = o1 + int (length INS)"
    and "o3 = o2 + int (length NO)" and "o4 = o3 + int (length OUTS)"
  have 1: "readInt32 B False 0 = Inr (version tx, 4)"
    using readInt32_signed [OF a(1) [unfolded V_def] f(9) f(1,2)] by simp
  have "stands_at B 4 [b0] (bs @ INS @ NO @ OUTS @ L @ [])"
    using stands_at_Cons(1) [OF d(1) [unfolded n(1)]] by (simp add: lV)
  from readInt8_at [OF this f(9)]
  have 2: "readInt8 B 4 = Inr (Some b0, 5)"
    by simp
  have "6 \<le> length B"
    using lI by (cases INS) (simp_all add: B lV n(1))
  then have 3: "readInt8 B 5 = Inr (byte_at B 5, 6)"
    by (simp add: readInt8_def Number_small)
  have 0: "Number 4 = 4"
    by (simp add: Number_small)
  have 4: "readVarInt B 4 = Inr (int (length (vin tx)), o1)"
    using readVarInt_at [OF d(1) [unfolded NI_def] f(9) f(5)] by (simp add: lV o1_def NI_def)
  have 5: "read_vins B (length (vin tx)) o1 = Inr (map (decoded_vin False) (vin tx), o2)"
    using read_vins_at [OF e(1) [unfolded INS_def] f(9) f(6)]
    by (simp add: lV o1_def o2_def INS_def)
  have 6: "readVarInt B o2 = Inr (int (length (vout tx)), o3)"
    using readVarInt_at [OF g(1) [unfolded NO_def] f(9) f(7)]
    by (simp add: lV o1_def o2_def o3_def NO_def)
  have 7: "read_vouts env network B (length (vout tx)) o3
           = Inr (map (decoded_vout env network) (vout tx), o4)"
    using read_vouts_at [OF h(1) [unfolded OUTS_def] f(9) f(8), of env network]
    by (simp add: lV o1_def o2_def o3_def o4_def OUTS_def)
  have 9: "readInt32 B True o4 = Inr (locktime tx, o4 + 4)"
    using readInt32_unsigned [OF h(2) [unfolded L_def] f(9) f(3,4)]
    by (simp add: lV o1_def o2_def o3_def o4_def)
  have 10: "o4 + 4 = int (length B)"
    by (simp add: B lV lL o1_def o2_def o3_def o4_def)
  have "read_transaction env B network
        = Inr (version tx, map (decoded_vin False) (vin tx),
               map (decoded_vout env network) (vout tx), locktime tx, False, 0)"
    unfolding read_transaction_def
    by (simp add: 1 2 3 0 4 5 6 7 9 10 Let_def n(2))
  then show ?thesis
    by (simp add: B_def)
qed

lemma fromBuffer_witness:
  assumes "fits tx"
  shows "fromBuffer env (serialize_with_witness tx) network
         = Inr (decoded env network True tx)"
proof -
  have l: "int (length (serialize_with_witness tx))
           = int (length (serializeTransaction tx)) + 2 + int (length (witness_bytes tx))"
    unfolding length_serialize_strip [symmetric] by simp
  show ?thesis
    unfolding fromBuffer_def read_transaction_witness [OF assms]
    by (simp add: decoded_def l compute_txid_def
        serializeTransaction_decoded [where tx = tx and w = True and env = env and n = network])
qed

lemma fromBuffer_legacy:
  assumes "fits tx" "vin tx \<noteq> []"
  shows "fromBuffer env (serializeTransaction tx) network
         = Inr (decoded env network False tx)"
  unfolding fromBuffer_def read_transaction_legacy [OF assms]
  by (simp add: decoded_def compute_txid_def
      serializeTransaction_decoded [where tx = tx and w = False and env = env and n = network])

lemma decodeRawTransaction_bytes:
  "decodeRawTransaction env rawtx network =
     (if rawtx = [] \<or> length rawtx mod 2 \<noteq> 0 \<or> \<not> list_all is_hex rawtx
      then Inl Invalid_hex_string
      else fromBuffer env (hexStringToUint8Array rawtx) network)"
  by (simp add: decodeRawTransaction_def invalid_hex_string_def hexStringToUint8Array_def
      mult.commute)


lemma length_hexStringToUint8Array [simp]: "length (hexStringToUint8Array s) = length s div 2"
  by (simp add: hexStringToUint8Array_def)

lemma length_uint8ArrayToHexString [simp]: "length (uint8ArrayToHexString bs) = 2 * length bs"
  by (induction bs) (simp_all add: uint8ArrayToHexString_def hex_of_byte_def)

lemma is_hex_uint8ArrayToHexString:
  "list_all (\<lambda>b. b < 256) bs \<Longrightarrow> list_all is_hex (uint8ArrayToHexString bs)"
proof (induction bs)
  case Nil
  then show ?case by (simp add: uint8ArrayToHexString_def)
next
  case (Cons b bs)
  then have "b < 256"
    by simp
  then have "b div 16 < 16" "b mod 16 < 16"
    by (simp_all add: div_less_iff_less_mult)
  then have "is_hex (hex_char (b div 16))" "is_hex (hex_char (b mod 16))"
    by (simp_all only: hex_char_props(6))
  then show ?case
    using Cons by (simp add: uint8ArrayToHexString_def hex_of_byte_def)
qed

lemma byte_and_255: "nat ((x::int) AND 255) < 256"
  by (simp add: and_255 nat_less_iff)

lemma intToBytes_bytes: "list_all (\<lambda>b. b < 256) (intToBytes v n)"
  by (simp add: intToBytes_def list_all_iff byte_and_255)

lemma bigIntToBytes_bytes: "list_all (\<lambda>b. b < 256) (bigIntToBytes v n)"
  by (simp add: bigIntToBytes_def list_all_iff byte_and_255)

lemma varIntToBytes_bytes: "list_all (\<lambda>b. b < 256) (varIntToBytes n)"
  by (simp add: varIntToBytes_def intToBytes_bytes byte_and_255)

lemma list_all_concat: "list_all P (concat xss) = list_all (list_all P) xss"
  by (induction xss) simp_all

lemma list_all_rev: "list_all P (rev xs) = list_all P xs"
  by (simp add: list_all_iff)

lemma serialize_input_bytes: "list_all (\<lambda>b. b < 256) (serialize_input v)"
  by (simp add: serialize_input_def intToBytes_bytes varIntToBytes_bytes
      hexStringToUint8Array_bytes list_all_rev)

lemma serialize_output_bytes: "list_all (\<lambda>b. b < 256) (serialize_output v)"
  by (simp add: serialize_output_def bigIntToBytes_bytes varIntToBytes_bytes
      hexStringToUint8Array_bytes)

lemma concat_map_bytes:
  assumes "\<And>x. list_all P (f x)"
  shows "list_all P (concat (map f xs))"
  by (induction xs) (simp_all add: assms)

lemma serializeTransaction_bytes: "list_all (\<lambda>b. b < 256) (serializeTransaction tx)"
  by (simp add: serializeTransaction_def intToBytes_bytes varIntToBytes_bytes
      concat_map_bytes [of _ serialize_input, OF serialize_input_bytes]
      concat_map_bytes [of _ serialize_output, OF serialize_output_bytes])

lemma decode_well_formed:
  assumes "well_formed rawtx w tx"
  shows "decodeRawTransaction env rawtx network = Inr (decoded env network w tx)"
proof -
  have h: "rawtx \<noteq> []" "even (length rawtx)" "list_all is_hex rawtx" "fits tx" "vin tx \<noteq> []"
    and b: "hexStringToUint8Array rawtx
            = (if w then serialize_with_witness tx else serializeTransaction tx)"
    using assms by (simp_all add: well_formed_def)
  have "decodeRawTransaction env rawtx network
        = fromBuffer env (hexStringToUint8Array rawtx) network"
    using h(1,2,3) by (simp add: decodeRawTransaction_bytes even_iff_mod_2_eq_zero)
  then show ?thesis
    using fromBuffer_witness [OF h(4)] fromBuffer_legacy [OF h(4,5)] by (simp add: b)
qed

lemma decode_serialization:
  assumes "fits tx" "vin tx \<noteq> []"
  shows "decodeRawTransaction env (uint8ArrayToHexString (serializeTransaction tx)) network
         = Inr (decoded env network False tx)"
proof (rule decode_well_formed)
  have "0 < length (serializeTransaction tx)"
    by (simp add: serializeTransaction_def)
  then have "uint8ArrayToHexString (serializeTransaction tx) \<noteq> []"
    by (metis length_uint8ArrayToHexString length_0_conv mult_is_0 neq0_conv
        zero_neq_numeral)
  moreover have "list_all is_hex (uint8ArrayToHexString (serializeTransaction tx))"
    by (rule is_hex_uint8ArrayToHexString [OF serializeTransaction_bytes])
  moreover have "hexStringToUint8Array (uint8ArrayToHexString (serializeTransaction tx))
                 = serializeTransaction tx"
    by (rule hexStringToUint8Array_hex [OF serializeTransaction_bytes])
  ultimately show "well_formed (uint8ArrayToHexString (serializeTransaction tx)) False tx"
    using assms by (simp add: well_formed_def)
qed

lemma serializeTransaction_of_decoded:
  "serializeTransaction (decoded env network w tx) = serializeTransaction tx"
  by (rule serializeTransaction_decoded [where w = w and env = env and n = network])
     (simp_all add: decoded_def)

lemma serializeTransaction_strip:
  "serializeTransaction tx
   = intToBytes (version tx) 4 @ inputs_and_outputs tx @ intToBytes (locktime tx) 4"
  by (simp add: serializeTransaction_def inputs_and_outputs_def)

subsection \<open>The round trip\<close>

text \<open>Claim C4. Let the raw transaction be well formed: a non-empty hexadecimal text of even
  length whose bytes are the serialization, with or without the marker, the flag and the
  witness stacks, of a transaction with at least one input whose numbers fit their fields.
  Then \<open>decodeRawTransaction\<close> returns a transaction; \<open>serializeTransaction\<close> of it is the
  version, the inputs and outputs and the locktime of the raw transaction, that is its
  bytes without marker, flag and witness stacks; decoding that serialization again gives a
  transaction with the same identifier; and the identifier stored is the one that \<open>txid\<close>
  computes from the decoded transaction.\<close>

theorem round_trip:
  assumes "well_formed rawtx with_witness tx"
  shows "decodeRawTransaction env rawtx network = Inr (decoded env network with_witness tx)
         \<and> serializeTransaction (decoded env network with_witness tx)
           = intToBytes (version tx) 4 @ inputs_and_outputs tx @ intToBytes (locktime tx) 4
         \<and> decodeRawTransaction env
             (uint8ArrayToHexString (serializeTransaction (decoded env network with_witness tx)))
             network
           = Inr (decoded env network False tx)
         \<and> txid (decoded env network False tx) = txid (decoded env network with_witness tx)
         \<and> compute_txid env (decoded env network with_witness tx)
           = txid (decoded env network with_witness tx)"
proof (intro conjI)
  have h: "fits tx" "vin tx \<noteq> []"
    using assms by (simp_all add: well_formed_def)
  show "decodeRawTransaction env rawtx network = Inr (decoded env network with_witness tx)"
    by (rule decode_well_formed [OF assms])
  show "serializeTransaction (decoded env network with_witness tx)
        = intToBytes (version tx) 4 @ inputs_and_outputs tx @ intToBytes (locktime tx) 4"
    unfolding serializeTransaction_of_decoded by (rule serializeTransaction_strip)
  show "decodeRawTransaction env
          (uint8ArrayToHexString (serializeTransaction (decoded env network with_witness tx)))
          network
        = Inr (decoded env network False tx)"
    by (simp only: serializeTransaction_of_decoded decode_serialization [OF h])
  show "txid (decoded env network False tx) = txid (decoded env network with_witness tx)"
    by (simp add: decoded_def)
  show "compute_txid env (decoded env network with_witness tx)
        = txid (decoded env network with_witness tx)"
    by (simp add: compute_txid_def serializeTransaction_of_decoded) (simp add: decoded_def compute_txid_def)
qed

lemma byte_table:
  "byte_of_hex ''00'' = 0" "byte_of_hex ''01'' = 1" "byte_of_hex ''02'' = 2"
  "byte_of_hex ''03'' = 3" "byte_of_hex ''11'' = 17" "byte_of_hex ''14'' = 20"
  "byte_of_hex ''16'' = 22" "byte_of_hex ''51'' = 81" "byte_of_hex ''aa'' = 170"
  "byte_of_hex ''bb'' = 187" "byte_of_hex ''c9'' = 201" "byte_of_hex ''e8'' = 232"
  "byte_of_hex ''ff'' = 255"
  by code_simp+

lemma hexStringToUint8Array_replicate:
  "hexStringToUint8Array (concat (replicate n [a, b]) @ rest)
   = replicate n (byte_of_hex [a, b]) @ hexStringToUint8Array rest"
  by (induction n) (simp_all add: hexStringToUint8Array_Cons2)

lemma bytes_raw_segwit:
  "hexStringToUint8Array raw_segwit =
     [2, 0, 0, 0] @ [0, 1] @ [2]
     @ replicate 32 170 @ [0, 0, 0, 0] @ [0] @ [255, 255, 255, 255]
     @ replicate 32 187 @ [1, 0, 0, 0] @ [1, 81] @ [255, 255, 255, 255]
     @ [1] @ [232, 3, 0, 0, 0, 0, 0, 0] @ [22] @ [0, 20]
     @ [17, 17, 17, 17, 17, 17, 17, 17, 17, 17, 17, 17, 17, 17, 17, 17, 17, 17, 17, 17]
     @ [2, 1, 170, 1, 187] @ [0]
     @ [0, 0, 0, 0]"
  by (simp add: raw_segwit_def hex32_def p2wpkh_script_def hexStringToUint8Array_Cons2
      hexStringToUint8Array_replicate byte_table)


section \<open>The codec at the example transactions\<close>

lemma hexStringToUint8Array_replicate0:
  "hexStringToUint8Array (concat (replicate n [a, b])) = replicate n (byte_of_hex [a, b])"
  using hexStringToUint8Array_replicate [of n a b "[]"] by simp

lemma bytes_segwit_tx: "serialize_with_witness segwit_tx =
     [2, 0, 0, 0] @ [0, 1] @ [2]
     @ replicate 32 170 @ [0, 0, 0, 0] @ [0] @ [255, 255, 255, 255]
     @ replicate 32 187 @ [1, 0, 0, 0] @ [1, 81] @ [255, 255, 255, 255]
     @ [1] @ [232, 3, 0, 0, 0, 0, 0, 0] @ [22] @ [0, 20]
     @ [17, 17, 17, 17, 17, 17, 17, 17, 17, 17, 17, 17, 17, 17, 17, 17, 17, 17, 17, 17]
     @ [2, 1, 170, 1, 187] @ [0]
     @ [0, 0, 0, 0]"
  by (simp add: serialize_with_witness_def inputs_and_outputs_def witness_bytes_def
      witness_stack_bytes_def witness_item_bytes_def witness_of_def
      segwit_tx_def example_tx_def segwit_vin_def example_vout_def p2wpkh_script_def hex32_def
      serialize_input_def serialize_output_def
      intToBytes_4 bigIntToBytes_8 varIntToBytes_small
      hexStringToUint8Array_Cons2 hexStringToUint8Array_replicate0 byte_table)

lemma hex_table:
  "is_hex CHR ''0''" "is_hex CHR ''1''" "is_hex CHR ''2''" "is_hex CHR ''3''"
  "is_hex CHR ''4''" "is_hex CHR ''5''" "is_hex CHR ''6''" "is_hex CHR ''8''"
  "is_hex CHR ''9''" "is_hex CHR ''a''" "is_hex CHR ''b''" "is_hex CHR ''c''"
  "is_hex CHR ''e''" "is_hex CHR ''f''"
  by code_simp+

lemma list_all_replicate: "list_all P (replicate n x) = (n = 0 \<or> P x)"
  by (induction n) auto

lemma hex_raw_segwit: "raw_segwit \<noteq> [] \<and> even (length raw_segwit) \<and> list_all is_hex raw_segwit"
  by (simp add: raw_segwit_def hex32_def p2wpkh_script_def hex_table list_all_concat
      list_all_replicate length_concat sum_list_replicate)

lemma length_segwit_tx: "length (serialize_with_witness segwit_tx) = 132"
  unfolding bytes_segwit_tx by simp

lemma fits_segwit_tx: "fits segwit_tx"
  unfolding fits_def length_segwit_tx
  by (simp add: segwit_tx_def example_tx_def segwit_vin_def example_vout_def p2wpkh_script_def
      hex32_def fits_vin_def fits_vout_def fits_witness_item_def witness_of_def
      length_concat sum_list_replicate)

lemma well_formed_raw_segwit: "well_formed raw_segwit True segwit_tx"
proof -
  have "vin segwit_tx \<noteq> []"
    by (simp add: segwit_tx_def example_tx_def)
  moreover have "hexStringToUint8Array raw_segwit = serialize_with_witness segwit_tx"
    by (simp only: bytes_raw_segwit bytes_segwit_tx)
  ultimately show ?thesis
    using hex_raw_segwit fits_segwit_tx by (simp add: well_formed_def)
qed

text \<open>The round trip at the raw transaction \<open>raw_segwit\<close>.\<close>

theorem round_trip_witness:
  "well_formed raw_segwit True segwit_tx
   \<and> decodeRawTransaction example_encoders raw_segwit []
     = Inr (decoded example_encoders [] True segwit_tx)
   \<and> serializeTransaction (decoded example_encoders [] True segwit_tx)
     = intToBytes (version segwit_tx) 4 @ inputs_and_outputs segwit_tx
       @ intToBytes (locktime segwit_tx) 4
   \<and> decodeRawTransaction example_encoders
       (uint8ArrayToHexString (serializeTransaction (decoded example_encoders [] True segwit_tx)))
       []
     = Inr (decoded example_encoders [] False segwit_tx)
   \<and> txid (decoded example_encoders [] False segwit_tx)
     = txid (decoded example_encoders [] True segwit_tx)
   \<and> compute_txid example_encoders (decoded example_encoders [] True segwit_tx)
     = txid (decoded example_encoders [] True segwit_tx)"
  by (rule conjI [OF well_formed_raw_segwit round_trip [OF well_formed_raw_segwit]])

lemma length_witness_bytes_segwit_tx: "length (witness_bytes segwit_tx) = 6"
  by (simp add: witness_bytes_def witness_stack_bytes_def witness_item_bytes_def witness_of_def
      segwit_tx_def example_tx_def segwit_vin_def varIntToBytes_small)

lemma length_stripped_segwit_tx: "length (serializeTransaction segwit_tx) = 124"
  using length_serialize_strip [of segwit_tx]
  by (simp only: length_segwit_tx length_witness_bytes_segwit_tx)

lemma rehex_table: "rehex ''aa'' = ''aa''" "rehex ''bb'' = ''bb''"
  by code_simp+

lemma witnesses_segwit_tx:
  "map witness (vin (decoded env network True segwit_tx)) = [Some [''aa'', ''bb''], Some []]"
  by (simp add: decoded_def decoded_vin_def witness_of_def segwit_tx_def example_tx_def
      segwit_vin_def rehex_table)

lemma getNonWitnessSize_witnesses:
  "getNonWitnessSize su tx
   = (let st = foldl (\<lambda>st ws. nonwitness_step su st \<lparr>vin_txid = [], vin_vout = 0, prevout = None,
                  scriptsig = [], scriptsig_asm = [], inner_redeemscript_asm = None,
                  inner_witnessscript_asm = None, sequence = 0, witness = ws,
                  is_coinbase = False\<rparr>)
                (rat_of_int (weight tx), False) (map witness (vin tx));
          w = (if snd st then fst st - 2 else fst st)
      in \<lceil>w / 4\<rceil>)"
proof -
  have "foldl (nonwitness_step su) st vs
        = foldl (\<lambda>st ws. nonwitness_step su st \<lparr>vin_txid = [], vin_vout = 0, prevout = None,
                  scriptsig = [], scriptsig_asm = [], inner_redeemscript_asm = None,
                  inner_witnessscript_asm = None, sequence = 0, witness = ws,
                  is_coinbase = False\<rparr>) st (map witness vs)" for st vs
    by (induction vs arbitrary: st) (simp_all add: nonwitness_step_def)
  then show ?thesis
    by (simp add: getNonWitnessSize_def)
qed

text \<open>Claim C8 (the weight is three times the non-witness size plus the total size, and
  \<open>getNonWitnessSize\<close> recovers the non-witness size from the weight and the witness items)
  fails on the code in its second half. The decoder returns a transaction for \<open>raw_segwit\<close>
  with size 132 and a witness span of 8 bytes, marker and flag included, so the non-witness
  size is 124, which is the length of \<open>serializeTransaction\<close>, and the weight is
  \<open>3 * 124 + 132 = 504\<close>. \<open>getNonWitnessSize\<close> returns 125: it skips an input whose witness
  stack is empty, so the byte that holds the count 0 of that stack is not subtracted from
  the weight.\<close>

theorem empty_witness_stack_not_subtracted:
  "decodeRawTransaction example_encoders raw_segwit []
     = Inr (decoded example_encoders [] True segwit_tx)
   \<and> tx_size (decoded example_encoders [] True segwit_tx) = 132
   \<and> int (length (witness_bytes segwit_tx)) + 2 = 8
   \<and> weight (decoded example_encoders [] True segwit_tx) = 3 * (132 - 8) + 132
   \<and> int (length (serializeTransaction (decoded example_encoders [] True segwit_tx))) = 132 - 8
   \<and> getNonWitnessSize example_utils (decoded example_encoders [] True segwit_tx) = 125"
proof (intro conjI)
  show "decodeRawTransaction example_encoders raw_segwit []
     = Inr (decoded example_encoders [] True segwit_tx)"
    by (rule decode_well_formed [OF well_formed_raw_segwit])
  show "tx_size (decoded example_encoders [] True segwit_tx) = 132"
    by (simp add: decoded_def length_segwit_tx)
  show "int (length (witness_bytes segwit_tx)) + 2 = 8"
    by (simp add: length_witness_bytes_segwit_tx)
  show w: "weight (decoded example_encoders [] True segwit_tx) = 3 * (132 - 8) + 132"
    by (simp add: decoded_def length_segwit_tx length_stripped_segwit_tx)
  show "int (length (serializeTransaction (decoded example_encoders [] True segwit_tx))) = 132 - 8"
    by (simp add: serializeTransaction_of_decoded length_stripped_segwit_tx)
  show "getNonWitnessSize example_utils (decoded example_encoders [] True segwit_tx) = 125"
    unfolding getNonWitnessSize_witnesses witnesses_segwit_tx w
    by (simp add: nonwitness_step_def witness_items_size_def example_utils_def
        getVarIntLength_model_def) (rule ceiling_unique; simp)
qed

lemma replicate_32:
  "replicate 32 x =
     [x, x, x, x, x, x, x, x, x, x, x, x, x, x, x, x,
      x, x, x, x, x, x, x, x, x, x, x, x, x, x, x, x]"
  by (simp add: eval_nat_numeral)

lemma bytes_raw_negative_length:
  "hexStringToUint8Array raw_negative_length = negative_length_bytes"
  by (simp add: raw_negative_length_def hex32_def negative_length_bytes_def
      hexStringToUint8Array_Cons2 hexStringToUint8Array_replicate byte_table replicate_32)

lemma hex_raw_negative_length:
  "raw_negative_length \<noteq> [] \<and> even (length raw_negative_length)
   \<and> list_all is_hex raw_negative_length"
  by (simp add: raw_negative_length_def hex32_def hex_table list_all_concat
      list_all_replicate length_concat sum_list_replicate)

lemma length_negative_length_bytes: "length negative_length_bytes = 50"
  by (simp add: negative_length_bytes_def)

lemma int32_table:
  "int32 1 0 0 0 = 1" "int32 0 0 0 0 = 0" "int32 201 255 255 255 = - 55"
  "int32 255 255 255 255 = - 1" "push_bit 32 (- 1) OR (- 55 AND 4294967295) = (- 55 :: int)"
  "take_bit 32 (0::int) = 0" "NOT (mask 32) OR 4294967241 = (- 55 :: int)"
  by code_simp+

lemma Number_table:
  "Number 0 = 0" "Number 1 = 1" "Number 2 = 2" "Number 3 = 3" "Number 4 = 4" "Number 5 = 5"
  "Number 6 = 6" "Number 37 = 37" "Number 38 = 38" "Number 39 = 39" "Number 40 = 40"
  "Number 41 = 41" "Number 42 = 42" "Number 43 = 43" "Number 44 = 44" "Number 45 = 45"
  "Number 46 = 46" "Number 47 = 47" "Number 48 = 48" "Number 49 = 49" "Number 50 = 50"
  "Number 32 = 32" "Number (- 55) = - 55" "Number (- 5) = - 5" "Number (- 4) = - 4"
  "Number (- 3) = - 3" "Number (- 2) = - 2" "Number (- 1) = - 1"
  by (simp_all add: Number_small)

lemma negative_length_version: "readInt32 negative_length_bytes False 0 = Inr (1, 4)"
  by (simp add: readInt32_def int32_at_def byte_at_def or0_def Number_table
      length_negative_length_bytes int32_table)
     (simp add: negative_length_bytes_def int32_table)

lemma negative_length_marker:
  "readInt8 negative_length_bytes 4 = Inr (Some 1, 5)"
  "readInt8 negative_length_bytes 5 = Inr (Some 170, 6)"
  by (simp_all add: readInt8_def byte_at_def Number_table length_negative_length_bytes)
     (simp_all add: negative_length_bytes_def)

lemma negative_length_count: "readVarInt negative_length_bytes 4 = Inr (1, 5)"
  by (simp add: readVarInt_def negative_length_marker)

lemma negative_length_hash:
  "\<exists>hash. readSlice negative_length_bytes 32 5 = Inr (hash, 37)"
  by (simp add: readSlice_def Number_table length_negative_length_bytes)

lemma negative_length_index: "readInt32 negative_length_bytes True 37 = Inr (0, 41)"
  by (simp add: readInt32_def int32_at_def byte_at_def or0_def Number_table
      length_negative_length_bytes int32_table)
     (simp add: negative_length_bytes_def int32_table)

lemma negative_length_prefix: "readInt8 negative_length_bytes 41 = Inr (Some 255, 42)"
  by (simp add: readInt8_def byte_at_def Number_table length_negative_length_bytes)
     (simp add: negative_length_bytes_def)

lemma negative_length_length: "readInt64 negative_length_bytes 42 = Inr (- 55, 50)"
  by (simp add: readInt64_def int32_at_def byte_at_def or0_def Number_table
      length_negative_length_bytes int32_table)
     (simp add: negative_length_bytes_def int32_table)

lemma negative_length_script: "readVarSlice negative_length_bytes 41 = Inr ([], - 5)"
  by (simp add: readVarSlice_def readVarInt_def negative_length_prefix negative_length_length
      readSlice_def Number_table length_negative_length_bytes typed_slice_def
      relative_index_def)

lemma negative_length_sequence: "readInt32 negative_length_bytes True (- 5) = Inr (0, - 1)"
  by (simp add: readInt32_def int32_at_def byte_at_def or0_def Number_table
      length_negative_length_bytes int32_table)

lemma negative_length_input: "\<exists>input. read_vin negative_length_bytes 5 = Inr (input, - 1)"
proof -
  obtain hash where "readSlice negative_length_bytes 32 5 = Inr (hash, 37)"
    using negative_length_hash by blast
  then show ?thesis
    by (simp add: read_vin_def negative_length_index negative_length_script
        negative_length_sequence)
qed

lemma negative_length_inputs:
  "\<exists>inputs. read_vins negative_length_bytes (Suc 0) 5 = Inr (inputs, - 1)"
proof -
  obtain input where "read_vin negative_length_bytes 5 = Inr (input, - 1)"
    using negative_length_input by blast
  then show ?thesis
    by simp
qed

lemma negative_length_output_count:
  "readVarInt negative_length_bytes (- 1) = Inl Invalid_VarInt_prefix"
  by (simp add: readVarInt_def readInt8_def byte_at_def Number_table
      length_negative_length_bytes)

lemma negative_length_transaction:
  "read_transaction env negative_length_bytes network = Inl Invalid_VarInt_prefix"
proof -
  obtain inputs where "read_vins negative_length_bytes (Suc 0) 5 = Inr (inputs, - 1)"
    using negative_length_inputs by blast
  then show ?thesis
    by (simp add: read_transaction_def negative_length_version negative_length_marker
        Number_table negative_length_count negative_length_output_count)
qed

text \<open>Claim C5 (the decoder fails exactly when the text is not hexadecimal, a read goes
  past the end of the buffer, or bytes are left over) fails on the code. The length
  \<open>0xffffffffffffffc9\<close> of the signature script is read by \<open>readInt64\<close> as \<open>-55\<close>;
  \<open>readSlice\<close> tests the end of the slice against the end of the buffer only, returns the
  empty slice and moves the offset from 50 back to \<open>-5\<close>; the sequence number is then read
  from four places before the buffer as 0, without an error; and the count of the outputs is
  read at offset \<open>-1\<close> as \<open>undefined\<close>, for which \<open>readVarInt\<close> throws \<open>Invalid VarInt
  prefix\<close>. The text is hexadecimal, no read went past the end of the buffer, and the test
  for bytes left over was not reached.\<close>

theorem negative_length_reads_before_the_buffer:
  "decodeRawTransaction example_encoders raw_negative_length [] = Inl Invalid_VarInt_prefix"
  using hex_raw_negative_length
  by (simp add: decodeRawTransaction_bytes bytes_raw_negative_length fromBuffer_def
      negative_length_transaction even_iff_mod_2_eq_zero)

end
